theory Spec2Isabelle
  imports Complex_Main "HOL-Library.AList"
begin

section \<open>Values, listings and errors\<close>

text \<open>
  A listing is a Python dictionary with string keys, written by the scraper and read back
  from \<^verbatim>\<open>data/listings.json\<close>.  The fields of the record shape hold JSON scalars:
  \<^verbatim>\<open>None\<close>, a number or a string.  Numbers are rationals, so that the integer 1200 and the
  float 1200.0 are the same value, as they are for Python's \<^verbatim>\<open>==\<close> and for dictionary keys
  (NaN, booleans and nested containers do not occur in the record shape and are not
  modelled).  A dictionary is an association list in insertion order, read with
  \<^const>\<open>map_of\<close> and written with \<^const>\<open>AList.update\<close>, which replaces the value of a
  key in place and appends a new key at the end, as \<^verbatim>\<open>d[k] = v\<close> does.
\<close>

datatype pyval = PNone | PNum rat | PStr string

type_synonym listing = "(string \<times> pyval) list"

text \<open>A dictionary from listing ids to listings (\<^verbatim>\<open>existing_by_id\<close>, \<^verbatim>\<open>new_by_id\<close>).\<close>

type_synonym ldict = "(pyval \<times> listing) list"

datatype error = KeyError string | OverflowError | ValueError | UnicodeDecodeError

text \<open>\<^verbatim>\<open>d[k]\<close> raises KeyError on a missing key; \<^verbatim>\<open>d.get(k)\<close> returns None.\<close>

definition getitem :: "listing \<Rightarrow> string \<Rightarrow> error + pyval" where
  "getitem d k = (case map_of d k of None \<Rightarrow> Inl (KeyError k) | Some v \<Rightarrow> Inr v)"

definition py_get :: "listing \<Rightarrow> string \<Rightarrow> pyval" where
  "py_get d k = (case map_of d k of None \<Rightarrow> PNone | Some v \<Rightarrow> v)"

definition id_of :: "listing \<Rightarrow> pyval option" where
  "id_of d = map_of d ''id''"

section \<open>The clock and the datetime library\<close>

text \<open>
  \<^verbatim>\<open>datetime.now()\<close> is an effect: the \<open>k\<close>-th reading of the process is \<open>clock E k\<close>, in
  microseconds, and every function that reads the clock takes the number of readings made so
  far and returns the new number.  \<^verbatim>\<open>datetime.fromisoformat\<close> and \<^verbatim>\<open>isoformat\<close> belong to the
  standard library and are parameters.  \<^verbatim>\<open>fromisoformat s\<close> raises ValueError (\<open>Invalid\<close>),
  or returns a datetime without offset (\<open>Naive t\<close>), or one with an offset (\<open>Aware\<close>), which
  cannot be subtracted from \<^verbatim>\<open>datetime.now()\<close>: the subtraction raises TypeError.
  \<open>max_age_days\<close> is the field \<^verbatim>\<open>self.max_age_days\<close> of \<^verbatim>\<open>ListingStorage\<close>.
\<close>

datatype parsed = Invalid | Naive int | Aware

record env =
  clock :: "nat \<Rightarrow> int"
  fromisoformat :: "string \<Rightarrow> parsed"
  isoformat :: "int \<Rightarrow> string"
  max_age_days :: int

definition day :: int where
  "day = 86400000000"

section \<open>storage.py: the reconciler\<close>

definition is_listing_updated :: "listing \<Rightarrow> listing \<Rightarrow> bool" where
  "is_listing_updated new_listing existing_listing =
     (if py_get new_listing ''price'' \<noteq> py_get existing_listing ''price'' then True
      else if py_get new_listing ''available'' \<noteq> py_get existing_listing ''available'' then True
      else if py_get new_listing ''description'' \<noteq> py_get existing_listing ''description''
      then True
      else False)"

text \<open>
  \<^verbatim>\<open>_is_listing_too_old\<close>.  The default argument of \<^verbatim>\<open>listing.get\<close> is evaluated before the
  call, so the clock is read once even when \<^verbatim>\<open>first_seen\<close> is present.  A value that is not a
  string makes \<^verbatim>\<open>fromisoformat\<close> raise TypeError, which is caught like ValueError.
  \<^verbatim>\<open>timedelta(days=d)\<close> raises OverflowError when the magnitude of \<open>d\<close> exceeds 999999999;
  the handler does not catch it.  The second reading of the clock is the one subtracted from.
\<close>

definition is_listing_too_old :: "env \<Rightarrow> listing \<Rightarrow> nat \<Rightarrow> error + (bool \<times> nat)" where
  "is_listing_too_old E listing n =
     (case (case map_of listing ''first_seen'' of
              None \<Rightarrow> PStr (isoformat E (clock E n))
            | Some v \<Rightarrow> v) of
        PStr s \<Rightarrow>
          (case fromisoformat E s of
             Invalid \<Rightarrow> Inr (False, n + 1)
           | Aware \<Rightarrow>
               if \<bar>max_age_days E\<bar> > 999999999 then Inl OverflowError
               else Inr (False, n + 2)
           | Naive first_seen \<Rightarrow>
               if \<bar>max_age_days E\<bar> > 999999999 then Inl OverflowError
               else Inr (clock E (n + 1) - first_seen > max_age_days E * day, n + 2))
      | _ \<Rightarrow> Inr (False, n + 1))"

text \<open>
  The dictionary comprehension \<^verbatim>\<open>{listing['id']: listing for listing in ...}\<close>: a later
  listing replaces an earlier one with the same id, at the earlier one's position.
\<close>

fun by_id :: "listing list \<Rightarrow> ldict \<Rightarrow> error + ldict" where
  "by_id [] d = Inr d"
| "by_id (l # ls) d =
     (case getitem l ''id'' of
        Inl e \<Rightarrow> Inl e
      | Inr k \<Rightarrow> by_id ls (AList.update k l d))"

text \<open>
  The f-string of both log lines reads \<^verbatim>\<open>new_listing['title']\<close>, then
  \<^verbatim>\<open>new_listing['url']\<close>; each raises KeyError on a missing key.
\<close>

definition log_title_url :: "listing \<Rightarrow> error + unit" where
  "log_title_url l =
     (case getitem l ''title'' of
        Inl e \<Rightarrow> Inl e
      | Inr _ \<Rightarrow> (case getitem l ''url'' of Inl e \<Rightarrow> Inl e | Inr _ \<Rightarrow> Inr ()))"

text \<open>
  The loop over \<^verbatim>\<open>new_by_id.items()\<close>: \<open>classify_item\<close> is its body, \<open>classify\<close> the
  iteration, which an exception leaves at once.  The state is \<^verbatim>\<open>new_by_id\<close>, \<^verbatim>\<open>added_listings\<close>,
  \<^verbatim>\<open>updated_listings\<close> and the number of clock readings.  The loop assigns only to the key
  it is visiting, so the items it visits are those of the dictionary as it was built.
  In the update branch \<^verbatim>\<open>new_listing\<close> is the very object stored in \<^verbatim>\<open>new_by_id\<close>: writing its
  \<^verbatim>\<open>first_seen\<close> and \<^verbatim>\<open>last_updated\<close> changes the dictionary's value too.
\<close>

type_synonym cmp_state = "ldict \<times> listing list \<times> listing list \<times> nat"

definition classify_item :: "env \<Rightarrow> ldict \<Rightarrow> pyval \<times> listing \<Rightarrow> cmp_state \<Rightarrow> error + cmp_state" where
  "classify_item E existing_by_id item s =
     (case item of (listing_id, new_listing) \<Rightarrow>
      case s of (new_by_id, added_listings, updated_listings, n) \<Rightarrow>
      (case map_of existing_by_id listing_id of
         None \<Rightarrow>
           (case log_title_url new_listing of
              Inl e \<Rightarrow> Inl e
            | Inr _ \<Rightarrow> Inr (new_by_id, added_listings @ [new_listing], updated_listings, n))
       | Some existing_listing \<Rightarrow>
           if is_listing_updated new_listing existing_listing then
             (case getitem existing_listing ''first_seen'' of
                Inl e \<Rightarrow> Inl e
              | Inr fs \<Rightarrow>
                  let new_listing' =
                        AList.update ''last_updated'' (PStr (isoformat E (clock E n)))
                          (AList.update ''first_seen'' fs new_listing)
                  in (case log_title_url new_listing' of
                        Inl e \<Rightarrow> Inl e
                      | Inr _ \<Rightarrow>
                          Inr (AList.update listing_id new_listing' new_by_id, added_listings,
                               updated_listings @ [new_listing'], n + 1)))
           else
             Inr (AList.update listing_id existing_listing new_by_id, added_listings,
                  updated_listings, n)))"

fun classify :: "env \<Rightarrow> ldict \<Rightarrow> (pyval \<times> listing) list \<Rightarrow> cmp_state \<Rightarrow> error + cmp_state" where
  "classify E existing_by_id [] s = Inr s"
| "classify E existing_by_id (item # items) s =
     (case classify_item E existing_by_id item s of
        Inl e \<Rightarrow> Inl e
      | Inr s' \<Rightarrow> classify E existing_by_id items s')"

text \<open>
  The comprehension \<^verbatim>\<open>preserved_listings\<close> over \<^verbatim>\<open>existing_by_id.items()\<close>; the age is
  looked at only for an id that is not in \<^verbatim>\<open>new_by_id\<close>.
\<close>

fun preserved_listings ::
  "env \<Rightarrow> ldict \<Rightarrow> (pyval \<times> listing) list \<Rightarrow> nat \<Rightarrow> error + (listing list \<times> nat)" where
  "preserved_listings E new_by_id [] n = Inr ([], n)"
| "preserved_listings E new_by_id ((listing_id, listing) # items) n =
     (if map_of new_by_id listing_id \<noteq> None then preserved_listings E new_by_id items n
      else
        (case is_listing_too_old E listing n of
           Inl e \<Rightarrow> Inl e
         | Inr (old, n') \<Rightarrow>
             (case preserved_listings E new_by_id items n' of
                Inl e \<Rightarrow> Inl e
              | Inr (rest, n'') \<Rightarrow> Inr (if old then rest else listing # rest, n''))))"

text \<open>
  \<^verbatim>\<open>compare_listings\<close> returns \<^verbatim>\<open>(added_listings, updated_listings, all_current_listings)\<close>,
  here together with the number of clock readings after the call.
\<close>

definition compare_listings ::
  "env \<Rightarrow> listing list \<Rightarrow> listing list \<Rightarrow> nat \<Rightarrow>
     error + ((listing list \<times> listing list \<times> listing list) \<times> nat)" where
  "compare_listings E new_listings existing_listings n =
     (case by_id existing_listings [] of
        Inl e \<Rightarrow> Inl e
      | Inr existing_by_id \<Rightarrow>
     (case by_id new_listings [] of
        Inl e \<Rightarrow> Inl e
      | Inr new_by_id \<Rightarrow>
     (case classify E existing_by_id new_by_id (new_by_id, [], [], n) of
        Inl e \<Rightarrow> Inl e
      | Inr (new_by_id', added_listings, updated_listings, n') \<Rightarrow>
     (case preserved_listings E new_by_id' existing_by_id n' of
        Inl e \<Rightarrow> Inl e
      | Inr (preserved, n'') \<Rightarrow>
          Inr ((added_listings, updated_listings, map snd new_by_id' @ preserved), n'')))))"

section \<open>main.py: the pipeline\<close>

text \<open>
  The listings file \<^verbatim>\<open>data/listings.json\<close> is absent; or unreadable: \<^verbatim>\<open>open\<close> or the read
  raises IOError, or \<^verbatim>\<open>json.load\<close> raises JSONDecodeError; or undecodable: its bytes are not
  text in the encoding of \<^verbatim>\<open>open\<close>, and the read raises UnicodeDecodeError; or it holds a
  list of listings (JSON of another shape is outside the model).  \<^verbatim>\<open>load_listings\<close> returns
  the empty list in the first two cases.  Its handler catches JSONDecodeError and IOError
  only, so the UnicodeDecodeError of the third case leaves \<^verbatim>\<open>load_listings\<close> and its caller.
  A write either succeeds or raises IOError, which \<^verbatim>\<open>save_listings\<close> catches; what the file
  holds after a failed write depends on where the write failed and comes with the failure.
\<close>

datatype json_file = Absent | Unreadable | Undecodable | Content "listing list"

datatype disk_write = Written | Failed json_file

definition load_listings :: "json_file \<Rightarrow> error + listing list" where
  "load_listings f =
     (case f of
        Absent \<Rightarrow> Inr []
      | Unreadable \<Rightarrow> Inr []
      | Undecodable \<Rightarrow> Inl UnicodeDecodeError
      | Content listings \<Rightarrow> Inr listings)"

definition save_listings :: "disk_write \<Rightarrow> listing list \<Rightarrow> json_file \<Rightarrow> bool \<times> json_file" where
  "save_listings w listings f =
     (case w of Written \<Rightarrow> (True, Content listings) | Failed f' \<Rightarrow> (False, f'))"

text \<open>The comprehension of \<^verbatim>\<open>clean_old_listings\<close>, which reads the clock for every listing.\<close>

fun not_too_old :: "env \<Rightarrow> listing list \<Rightarrow> nat \<Rightarrow> error + (listing list \<times> nat)" where
  "not_too_old E [] n = Inr ([], n)"
| "not_too_old E (listing # listings) n =
     (case is_listing_too_old E listing n of
        Inl e \<Rightarrow> Inl e
      | Inr (old, n') \<Rightarrow>
          (case not_too_old E listings n' of
             Inl e \<Rightarrow> Inl e
           | Inr (rest, n'') \<Rightarrow> Inr (if old then rest else listing # rest, n'')))"

text \<open>
  \<^verbatim>\<open>clean_old_listings\<close> returns \<^verbatim>\<open>removed_count\<close>; the model returns the file and the number
  of clock readings with it.  The result of its \<^verbatim>\<open>save_listings\<close> is not looked at.
\<close>

definition clean_old_listings ::
  "env \<Rightarrow> disk_write \<Rightarrow> json_file \<Rightarrow> nat \<Rightarrow> error + (nat \<times> json_file \<times> nat)" where
  "clean_old_listings E w f n =
     (case load_listings f of
        Inl e \<Rightarrow> Inl e
      | Inr listings \<Rightarrow>
          let original_count = length listings
          in case not_too_old E listings n of
               Inl e \<Rightarrow> Inl e
             | Inr (listings', n') \<Rightarrow>
                 let removed_count = original_count - length listings'
                 in if removed_count > 0
                    then Inr (removed_count, snd (save_listings w listings' f), n')
                    else Inr (removed_count, f, n'))"

text \<open>
  What a run of \<^verbatim>\<open>main\<close> leaves behind: \<^verbatim>\<open>stats['success']\<close>, the exit code, the triple
  returned by \<^verbatim>\<open>compare_listings\<close> if the run got that far, the listings file and
  \<^verbatim>\<open>stats['notification_sent']\<close>.
\<close>

record run =
  success :: bool
  exit_code :: int
  in_memory :: "(listing list \<times> listing list \<times> listing list) option"
  listings_file :: json_file
  notification_sent :: bool

text \<open>The \<^verbatim>\<open>finally\<close> block and the return: \<^verbatim>\<open>return 0 if stats['success'] else 1\<close>.\<close>

definition finish ::
  "bool \<Rightarrow> (listing list \<times> listing list \<times> listing list) option \<Rightarrow> json_file \<Rightarrow> bool \<Rightarrow> run" where
  "finish ok result f sent =
     \<lparr>success = ok, exit_code = (if ok then 0 else 1), in_memory = result, listings_file = f,
      notification_sent = sent\<rparr>"

text \<open>
  \<^verbatim>\<open>main\<close>.  Its surroundings are parameters: whether \<^verbatim>\<open>load_config\<close> returned a non-empty
  configuration, the listings file, the outcome of the two writes of that file, the result of
  \<^verbatim>\<open>scraper.scrape_all_cities()\<close> (an exception, or the listings and the number of clock
  readings of the crawl) and the result of \<^verbatim>\<open>notifier.send_notification\<close>, which catches its
  own exceptions.  The first statement of \<^verbatim>\<open>main\<close> reads the clock for \<^verbatim>\<open>start_time\<close>: that
  is the reading \<open>n\<close>, and \<^verbatim>\<open>clean_old_listings\<close> starts at the reading \<open>n + 1\<close>.  Every
  exception inside the \<^verbatim>\<open>try\<close> is caught and leaves \<^verbatim>\<open>stats['success']\<close> false.  The reading
  of \<^verbatim>\<open>end_time\<close> in the \<^verbatim>\<open>finally\<close> block comes after everything the model returns.
  \<^verbatim>\<open>save_latest_listings\<close>, \<^verbatim>\<open>save_notification_history\<close> and \<^verbatim>\<open>save_run_stats\<close> write other
  files and are left out.
\<close>

definition main ::
  "env \<Rightarrow> bool \<Rightarrow> json_file \<Rightarrow> disk_write \<Rightarrow> (error + (listing list \<times> nat)) \<Rightarrow> disk_write \<Rightarrow>
     bool \<Rightarrow> nat \<Rightarrow> run" where
  "main E config_loaded f w_clean scrape_all_cities w_save send_notification n =
     (let start_time = clock E n
      in if \<not> config_loaded then finish False None f False
      else
        case clean_old_listings E w_clean f (n + 1) of
          Inl e \<Rightarrow> finish False None f False
        | Inr (removed_count, f1, n1) \<Rightarrow>
            (case load_listings f1 of
               Inl e \<Rightarrow> finish False None f1 False
             | Inr existing_listings \<Rightarrow>
            (case scrape_all_cities of
               Inl e \<Rightarrow> finish False None f1 False
             | Inr (new_scraped_listings, ticks) \<Rightarrow>
                 (case compare_listings E new_scraped_listings existing_listings (n1 + ticks) of
                    Inl e \<Rightarrow> finish False None f1 False
                  | Inr ((added_listings, updated_listings, all_current_listings), n2) \<Rightarrow>
                      let f2 = snd (save_listings w_save all_current_listings f1);
                          sent = (if added_listings \<noteq> [] \<or> updated_listings \<noteq> []
                                  then send_notification else False)
                      in finish True
                           (Some (added_listings, updated_listings, all_current_listings)) f2
                           sent))))"

section \<open>scraper.py: the search URL\<close>

text \<open>
  The fields of \<^verbatim>\<open>ParariusScraper\<close> that the crawl reads.  \<open>price_range\<close> is the dictionary
  \<^verbatim>\<open>config.get('price_range', {})\<close>, whose values are integers or \<^verbatim>\<open>None\<close> (JSON null);
  \<open>min_bedrooms\<close> and \<open>min_size\<close> are \<^verbatim>\<open>config.get('min_bedrooms')\<close> and
  \<^verbatim>\<open>config.get('min_size')\<close>, \<^verbatim>\<open>None\<close> when the key is absent.
\<close>

record scraper =
  price_range :: "(string \<times> int option) list"
  min_bedrooms :: "int option"
  min_size :: "int option"
  request_delay :: rat
  max_retries :: int

text \<open>\<^verbatim>\<open>str\<close> of an integer, as an f-string formats it, and \<^verbatim>\<open>'/'.join\<close>.\<close>

fun digits :: "nat \<Rightarrow> string" where
  "digits n = (if n < 10 then [''0123456789'' ! n] else digits (n div 10) @ [''0123456789'' ! (n mod 10)])"

declare digits.simps [simp del]

definition str_int :: "int \<Rightarrow> string" where
  "str_int i = (if i < 0 then ''-'' @ digits (nat (- i)) else digits (nat i))"

fun join :: "string \<Rightarrow> string list \<Rightarrow> string" where
  "join sep [] = []"
| "join sep [x] = x"
| "join sep (x # y # ys) = x @ sep @ join sep (y # ys)"

definition BASE_URL :: string where
  "BASE_URL = ''https://www.pararius.com/apartments''"

text \<open>The truth value of an optional integer (\<^verbatim>\<open>if min_price:\<close>) and its text in an f-string.\<close>

definition truthy :: "int option \<Rightarrow> bool" where
  "truthy v = (case v of None \<Rightarrow> False | Some i \<Rightarrow> i \<noteq> 0)"

definition fmt :: "int option \<Rightarrow> string" where
  "fmt v = (case v of None \<Rightarrow> ''None'' | Some i \<Rightarrow> str_int i)"

definition build_search_url :: "scraper \<Rightarrow> string \<Rightarrow> int \<Rightarrow> string" where
  "build_search_url self city page =
     (let url = BASE_URL @ ''/'' @ city;
          min_price = (case map_of (price_range self) ''min'' of None \<Rightarrow> Some 0 | Some v \<Rightarrow> v);
          max_price = (case map_of (price_range self) ''max'' of None \<Rightarrow> None | Some v \<Rightarrow> v);
          params = (if min_price \<noteq> None \<and> max_price \<noteq> None
                    then [fmt min_price @ ''-'' @ fmt max_price]
                    else if truthy min_price then [fmt min_price @ ''+'']
                    else if truthy max_price then [''0-'' @ fmt max_price]
                    else []);
          params = (if truthy (min_bedrooms self)
                    then params @ [fmt (min_bedrooms self) @ ''-bedrooms''] else params);
          params = (if truthy (min_size self)
                    then params @ [fmt (min_size self) @ ''-m2''] else params);
          url = (if params \<noteq> [] then url @ ''/'' @ join ''/'' params else url);
          url = (if page > 1 then url @ ''/page-'' @ str_int page else url)
      in url)"

section \<open>scraper.py: the field extractor\<close>

text \<open>
  Text is a \<^typ>\<open>string\<close>; the 256 characters are read as Windows-1252, where the euro sign
  is \<^verbatim>\<open>0x80\<close> and the superscript two is \<^verbatim>\<open>0xB2\<close>.  In that repertoire the whitespace of
  \<^verbatim>\<open>\s\<close> and of \<^verbatim>\<open>str.strip\<close> is the characters 9 to 13, 28 to 32 and 160, and the digits
  of \<^verbatim>\<open>\d\<close> are \<^verbatim>\<open>0\<close> to \<^verbatim>\<open>9\<close>.
\<close>

definition is_space :: "char \<Rightarrow> bool" where
  "is_space c = (let n = (of_char c :: nat) in (9 \<le> n \<and> n \<le> 13) \<or> (28 \<le> n \<and> n \<le> 32) \<or> n = 160)"

definition is_digit :: "char \<Rightarrow> bool" where
  "is_digit c = (let n = (of_char c :: nat) in 48 \<le> n \<and> n \<le> 57)"

definition euro :: char where
  "euro = CHR 0x80"

definition strip :: "string \<Rightarrow> string" where
  "strip s = rev (dropWhile is_space (rev (dropWhile is_space s)))"

text \<open>\<^verbatim>\<open>sub in s\<close>, and the last piece of \<^verbatim>\<open>s.split('/')\<close>.\<close>

fun startswith :: "string \<Rightarrow> string \<Rightarrow> bool" where
  "startswith s [] = True"
| "startswith [] (p # ps) = False"
| "startswith (c # cs) (p # ps) = (c = p \<and> startswith cs ps)"

fun contains :: "string \<Rightarrow> string \<Rightarrow> bool" where
  "contains [] sub = (sub = [])"
| "contains (c # cs) sub = (startswith (c # cs) sub \<or> contains cs sub)"

fun rsplit1 :: "string \<Rightarrow> string \<Rightarrow> string" where
  "rsplit1 acc [] = acc"
| "rsplit1 acc (c # cs) = (if c = CHR ''/'' then rsplit1 [] cs else rsplit1 (acc @ [c]) cs)"

text \<open>
  \<^verbatim>\<open>re.search\<close> for a euro sign, \<^verbatim>\<open>\s*\<close> and the group \<^verbatim>\<open>([\d,.]+)\<close>: the group of
  the leftmost match.  At a euro sign the
  whitespace is skipped and the longest run of digits, commas and dots is taken; an empty
  run is no match there, and the search goes on behind that sign.
\<close>

fun search_price :: "string \<Rightarrow> string option" where
  "search_price [] = None"
| "search_price (c # cs) =
     (if c = euro then
        (let g = takeWhile (\<lambda>x. is_digit x \<or> x = CHR '','' \<or> x = CHR ''.'') (dropWhile is_space cs)
         in if g \<noteq> [] then Some g else search_price cs)
      else search_price cs)"

text \<open>
  \<^verbatim>\<open>re.search(r'(\d+)\s*' + lit, s)\<close> for a literal that begins with a letter: the group of
  the leftmost match, which is the whole run of digits there.
\<close>

fun search_number :: "string \<Rightarrow> string \<Rightarrow> string option" where
  "search_number lit [] = None"
| "search_number lit (c # cs) =
     (if is_digit c then
        (if startswith (dropWhile is_space (dropWhile is_digit (c # cs))) lit
         then Some (takeWhile is_digit (c # cs))
         else search_number lit cs)
      else search_number lit cs)"

text \<open>
  \<^verbatim>\<open>int\<close> of a string of digits.  The interpreter's limit on the number of digits that
  \<^verbatim>\<open>int\<close> converts (\<^verbatim>\<open>sys.set_int_max_str_digits\<close>, 4300 by default) is a setting of the
  process and is not modelled.
\<close>

fun nat_of_digits :: "nat \<Rightarrow> string \<Rightarrow> nat" where
  "nat_of_digits acc [] = acc"
| "nat_of_digits acc (c # cs) = nat_of_digits (10 * acc + (of_char c - 48)) cs"

text \<open>
  A listing fragment, as the selectors of \<^verbatim>\<open>_extract_listing_data\<close> see it: the title
  link (its \<^verbatim>\<open>href\<close>, if any, and its text), the text of the price element, the text of
  \<^verbatim>\<open>div.listing-search-item__sub-title\<close>, the classes and text of every \<^verbatim>\<open>div\<close> and of every
  feature item, the \<^verbatim>\<open>src\<close> of the image, if any, and the text of the agency link.
\<close>

record link =
  href :: "string option"
  link_text :: string

record tag =
  classes :: "string list"
  tag_text :: string

record element =
  title_link :: "link option"
  price_elem :: "string option"
  sub_title_elem :: "string option"
  divs :: "tag list"
  feature_items :: "tag list"
  image_elem :: "string option option"
  agency_elem :: "string option"

text \<open>
  The price: \<^verbatim>\<open>float\<close> of the group without commas and dots, which raises ValueError when
  nothing is left, and \<^verbatim>\<open>None\<close> when the pattern does not match.  The number is the exact
  value of the digits (a float rounds it from \<open>2^53\<close> on).
\<close>

definition price_of :: "string \<Rightarrow> error + pyval" where
  "price_of price_text =
     (case search_price price_text of
        None \<Rightarrow> Inr PNone
      | Some g \<Rightarrow>
          (let ds = filter (\<lambda>c. c \<noteq> CHR ''.'') (filter (\<lambda>c. c \<noteq> CHR '','') g)
           in if ds = [] then Inl ValueError else Inr (PNum (of_nat (nat_of_digits 0 ds)))))"

definition int_match :: "string option \<Rightarrow> pyval" where
  "int_match m = (case m of None \<Rightarrow> PNone | Some g \<Rightarrow> PNum (of_nat (nat_of_digits 0 g)))"

fun extract_features :: "tag list \<Rightarrow> listing \<Rightarrow> listing" where
  "extract_features [] features = features"
| "extract_features (item # items) features =
     (let item_class = classes item;
          item_text = strip (tag_text item)
      in if list_ex (\<lambda>cls. contains cls ''surface-area'') item_class then
           extract_features items
             (AList.update ''size''
                (int_match (search_number [CHR ''m'', CHR 0xB2] item_text)) features)
         else if list_ex (\<lambda>cls. contains cls ''number-of-rooms'') item_class then
           extract_features items
             (AList.update ''rooms'' (int_match (search_number ''room'' item_text)) features)
         else if list_ex (\<lambda>cls. contains cls ''interior'') item_class then
           extract_features items (AList.update ''interior'' (PStr item_text) features)
         else extract_features items features)"

definition location_of :: "element \<Rightarrow> string" where
  "location_of listing_element =
     (let location_elem =
            (case sub_title_elem listing_element of
               Some t \<Rightarrow> Some t
             | None \<Rightarrow>
                 map_option tag_text
                   (find (\<lambda>d. contains (join '' '' (classes d)) ''sub-title'')
                      (divs listing_element)))
      in case location_elem of None \<Rightarrow> ''Unknown'' | Some t \<Rightarrow> strip t)"

text \<open>
  The body of the \<^verbatim>\<open>try\<close>: a fragment without title link gives the empty dictionary, a
  link without \<^verbatim>\<open>href\<close> raises KeyError.  The clock is read twice, for \<^verbatim>\<open>first_seen\<close> and
  for \<^verbatim>\<open>last_updated\<close>.
\<close>

definition extract_body :: "env \<Rightarrow> element \<Rightarrow> nat \<Rightarrow> error + (listing \<times> nat)" where
  "extract_body E listing_element n =
     (case title_link listing_element of
        None \<Rightarrow> Inr ([], n)
      | Some listing_link \<Rightarrow>
          (case href listing_link of
             None \<Rightarrow> Inl (KeyError ''href'')
           | Some h \<Rightarrow>
               let url = ''https://www.pararius.com'' @ h;
                   listing_id = rsplit1 [] url;
                   title = strip (link_text listing_link);
                   price_text = (case price_elem listing_element of
                                   Some t \<Rightarrow> strip t | None \<Rightarrow> ''Unknown'')
               in case price_of price_text of
                    Inl e \<Rightarrow> Inl e
                  | Inr price \<Rightarrow>
                      let location = location_of listing_element;
                          features = extract_features (feature_items listing_element) [];
                          image_url = (case image_elem listing_element of
                                         Some (Some src) \<Rightarrow> PStr src | _ \<Rightarrow> PNone);
                          agency = (case agency_elem listing_element of
                                      Some t \<Rightarrow> strip t | None \<Rightarrow> ''Unknown'')
                      in Inr ([(''id'', PStr listing_id), (''url'', PStr url),
                               (''title'', PStr title), (''price'', price),
                               (''size'', py_get features ''size''),
                               (''rooms'', py_get features ''rooms''),
                               (''location'', PStr location),
                               (''interior'', (case map_of features ''interior'' of
                                                 None \<Rightarrow> PStr ''Unknown'' | Some v \<Rightarrow> v)),
                               (''image_url'', image_url), (''agency'', PStr agency),
                               (''first_seen'', PStr (isoformat E (clock E n))),
                               (''last_updated'', PStr (isoformat E (clock E (n + 1))))],
                              n + 2)))"

text \<open>\<^verbatim>\<open>except Exception\<close>: whatever the body raises, the result is the empty dictionary.\<close>

definition extract_listing_data :: "env \<Rightarrow> element \<Rightarrow> nat \<Rightarrow> listing \<times> nat" where
  "extract_listing_data E listing_element n =
     (case extract_body E listing_element n of Inl e \<Rightarrow> ([], n) | Inr r \<Rightarrow> r)"

section \<open>scraper.py: the fetcher and the page walker\<close>

text \<open>
  A parsed page, as \<^verbatim>\<open>scrape_city\<close> sees it: the listing fragments and whether there is a
  link to a next page.  \<^verbatim>\<open>requests.get\<close> with \<^verbatim>\<open>raise_for_status\<close> either raises a
  \<^verbatim>\<open>RequestException\<close> or gives a page; what the \<open>k\<close>-th request of the process gives for a
  URL is a parameter.  The world records the readings of the clock, the requests made and
  the arguments of \<^verbatim>\<open>time.sleep\<close>, which raises ValueError on a negative one.
\<close>

record page =
  listing_elements :: "element list"
  next_page :: bool

datatype response = RequestException | Parsed page

record world =
  readings :: nat
  requests_made :: nat
  slept :: "rat list"

definition sleep :: "rat \<Rightarrow> world \<Rightarrow> error + world" where
  "sleep secs w = (if secs < 0 then Inl ValueError else Inr (w\<lparr>slept := slept w @ [secs]\<rparr>))"

text \<open>
  The loop of \<^verbatim>\<open>_make_request\<close> at the attempt \<open>attempt\<close> with \<open>remaining\<close> iterations to go;
  the \<^verbatim>\<open>return None\<close> behind the loop is reached when the loop has no iteration at all.
\<close>

fun attempts ::
  "scraper \<Rightarrow> (nat \<Rightarrow> string \<Rightarrow> response) \<Rightarrow> string \<Rightarrow> nat \<Rightarrow> nat \<Rightarrow> world \<Rightarrow>
     (error + page option) \<times> world" where
  "attempts self get url attempt 0 w = (Inr None, w)"
| "attempts self get url attempt (Suc remaining) w =
     (let w1 = w\<lparr>requests_made := requests_made w + 1\<rparr>
      in case get (requests_made w) url of
           Parsed soup \<Rightarrow>
             (case sleep (request_delay self) w1 of
                Inl e \<Rightarrow> (Inl e, w1)
              | Inr w2 \<Rightarrow> (Inr (Some soup), w2))
         | RequestException \<Rightarrow>
             if int attempt = max_retries self - 1 then (Inr None, w1)
             else
               (case sleep (request_delay self * 2) w1 of
                  Inl e \<Rightarrow> (Inl e, w1)
                | Inr w2 \<Rightarrow> attempts self get url (attempt + 1) remaining w2))"

definition make_request ::
  "scraper \<Rightarrow> (nat \<Rightarrow> string \<Rightarrow> response) \<Rightarrow> string \<Rightarrow> world \<Rightarrow> (error + page option) \<times> world" where
  "make_request self get url w = attempts self get url 0 (nat (max_retries self)) w"

text \<open>The inner loop of \<^verbatim>\<open>scrape_city\<close>, which keeps the non-empty results.\<close>

fun extract_all :: "env \<Rightarrow> element list \<Rightarrow> listing list \<Rightarrow> nat \<Rightarrow> listing list \<times> nat" where
  "extract_all E [] all_listings n = (all_listings, n)"
| "extract_all E (listing_element # rest) all_listings n =
     (case extract_listing_data E listing_element n of
        (listing_data, n') \<Rightarrow>
          extract_all E rest
            (if listing_data \<noteq> [] then all_listings @ [listing_data] else all_listings) n')"

text \<open>
  The loop of \<^verbatim>\<open>scrape_city\<close> at the page \<open>page\<close> with \<open>remaining\<close> pages to go: it ends
  when the fetch fails, when the page has no listing, when there is no next page, and
  after \<^verbatim>\<open>max_pages\<close> pages.
\<close>

fun pages ::
  "env \<Rightarrow> scraper \<Rightarrow> (nat \<Rightarrow> string \<Rightarrow> response) \<Rightarrow> string \<Rightarrow> int \<Rightarrow> nat \<Rightarrow> listing list \<Rightarrow>
     world \<Rightarrow> (error + listing list) \<times> world" where
  "pages E self get city page 0 all_listings w = (Inr all_listings, w)"
| "pages E self get city page (Suc remaining) all_listings w =
     (case make_request self get (build_search_url self city page) w of
        (Inl e, w1) \<Rightarrow> (Inl e, w1)
      | (Inr None, w1) \<Rightarrow> (Inr all_listings, w1)
      | (Inr (Some soup), w1) \<Rightarrow>
          if listing_elements soup = [] then (Inr all_listings, w1)
          else
            (case extract_all E (listing_elements soup) all_listings (readings w1) of
               (all_listings', n') \<Rightarrow>
                 if \<not> next_page soup then (Inr all_listings', w1\<lparr>readings := n'\<rparr>)
                 else pages E self get city (page + 1) remaining all_listings'
                        (w1\<lparr>readings := n'\<rparr>)))"

definition scrape_city ::
  "env \<Rightarrow> scraper \<Rightarrow> (nat \<Rightarrow> string \<Rightarrow> response) \<Rightarrow> string \<Rightarrow> int \<Rightarrow> world \<Rightarrow>
     (error + listing list) \<times> world" where
  "scrape_city E self get city max_pages w = pages E self get city 1 (nat max_pages) [] w"

section \<open>Notions used in the statements\<close>

text \<open>
  \<open>last_with_id ls k\<close> is the listing that the dictionary comprehension files under the id
  \<open>k\<close>: the last one of \<open>ls\<close> with that id.
\<close>

fun last_with_id :: "listing list \<Rightarrow> pyval \<Rightarrow> listing option" where
  "last_with_id [] k = None"
| "last_with_id (l # ls) k =
     (case last_with_id ls k of
        Some x \<Rightarrow> Some x
      | None \<Rightarrow> if id_of l = Some k then Some l else None)"

text \<open>
  How \<^verbatim>\<open>_is_listing_too_old\<close> reads the \<^verbatim>\<open>first_seen\<close> of a listing: the key is missing, or
  its value is not the ISO text of a datetime without offset, or it is the instant \<open>t\<close>.
\<close>

datatype first_seen_reading = FS_missing | FS_unparseable | FS_at int

definition first_seen_of :: "env \<Rightarrow> listing \<Rightarrow> first_seen_reading" where
  "first_seen_of E l =
     (case map_of l ''first_seen'' of
        None \<Rightarrow> FS_missing
      | Some (PStr s) \<Rightarrow> (case fromisoformat E s of Naive t \<Rightarrow> FS_at t | _ \<Rightarrow> FS_unparseable)
      | Some _ \<Rightarrow> FS_unparseable)"

text \<open>A dictionary by id is \<open>keyed\<close> when every listing sits under its own id.\<close>

definition keyed :: "ldict \<Rightarrow> bool" where
  "keyed d \<longleftrightarrow> (\<forall>(k, l) \<in> set d. id_of l = Some k)"

text \<open>The fresh listing after the two assignments of the update branch, made at reading \<open>j\<close>.\<close>

definition stamped :: "env \<Rightarrow> nat \<Rightarrow> pyval \<Rightarrow> listing \<Rightarrow> listing" where
  "stamped E j fs nl =
     AList.update ''last_updated'' (PStr (isoformat E (clock E j))) (AList.update ''first_seen'' fs nl)"

text \<open>
  The search URL in the words of the specification: base path and city; then the price
  segment, \<open>min-max\<close> if both are set, \<open>min+\<close> if only the minimum is, \<open>0-max\<close> if only the
  maximum is; then \<open>n-bedrooms\<close> if set; then \<open>n-m2\<close> if set; then \<open>page-n\<close> for a page
  after the first.  A key is set when it holds a number.
\<close>

definition number :: "int option option \<Rightarrow> int option" where
  "number v = (case v of Some (Some i) \<Rightarrow> Some i | _ \<Rightarrow> None)"

definition spec_search_url :: "scraper \<Rightarrow> string \<Rightarrow> int \<Rightarrow> string" where
  "spec_search_url self city page =
     (let price =
            (case (number (map_of (price_range self) ''min''),
                   number (map_of (price_range self) ''max'')) of
               (Some mn, Some mx) \<Rightarrow> [str_int mn @ ''-'' @ str_int mx]
             | (Some mn, None) \<Rightarrow> [str_int mn @ ''+'']
             | (None, Some mx) \<Rightarrow> [''0-'' @ str_int mx]
             | (None, None) \<Rightarrow> []);
          bedrooms = (case min_bedrooms self of Some b \<Rightarrow> [str_int b @ ''-bedrooms''] | None \<Rightarrow> []);
          size = (case min_size self of Some s \<Rightarrow> [str_int s @ ''-m2''] | None \<Rightarrow> []);
          page_segment = (if page > 1 then [''page-'' @ str_int page] else [])
      in join ''/'' ([BASE_URL @ ''/'' @ city] @ price @ bedrooms @ size @ page_segment))"

text \<open>
  The search URL with the segments that a value of 0 leaves out: \<open>min-max\<close> if both are
  set; \<open>min+\<close> if only the minimum is set and it is not 0; \<open>0-max\<close> if only the maximum is
  set, unless the minimum is given as \<^verbatim>\<open>null\<close> and the maximum is 0; \<open>n-bedrooms\<close> and
  \<open>n-m2\<close> if set and not 0; \<open>page-n\<close> for a page after the first.
\<close>

definition amended_search_url :: "scraper \<Rightarrow> string \<Rightarrow> int \<Rightarrow> string" where
  "amended_search_url self city page =
     (let price =
            (case number (map_of (price_range self) ''max'') of
               Some mx \<Rightarrow>
                 (case map_of (price_range self) ''min'' of
                    Some (Some mn) \<Rightarrow> [str_int mn @ ''-'' @ str_int mx]
                  | None \<Rightarrow> [''0-'' @ str_int mx]
                  | Some None \<Rightarrow> if mx \<noteq> 0 then [''0-'' @ str_int mx] else [])
             | None \<Rightarrow>
                 (case number (map_of (price_range self) ''min'') of
                    Some mn \<Rightarrow> if mn \<noteq> 0 then [str_int mn @ ''+''] else []
                  | None \<Rightarrow> []));
          bedrooms = (case min_bedrooms self of
                        Some b \<Rightarrow> if b \<noteq> 0 then [str_int b @ ''-bedrooms''] else []
                      | None \<Rightarrow> []);
          size = (case min_size self of
                    Some s \<Rightarrow> if s \<noteq> 0 then [str_int s @ ''-m2''] else []
                  | None \<Rightarrow> []);
          page_segment = (if page > 1 then [''page-'' @ str_int page] else [])
      in join ''/'' ([BASE_URL @ ''/'' @ city] @ price @ bedrooms @ size @ page_segment))"

text \<open>
  A text has a price token when it holds a euro sign followed, after any whitespace, by a
  digit, a comma or a dot.
\<close>

definition has_price_token :: "string \<Rightarrow> bool" where
  "has_price_token s \<longleftrightarrow>
     (\<exists>pre ws c rest. s = pre @ euro # ws @ c # rest \<and> list_all is_space ws \<and>
        (is_digit c \<or> c = CHR '','' \<or> c = CHR ''.''))"

section \<open>Example data\<close>

text \<open>
  A datetime library cut down to the instants of the examples, counted in microseconds from
  the first of January 2024, and a clock that stands at the first of March 2024; the
  maximum age is the default of thirty days.
\<close>

definition fromisoformat0 :: "string \<Rightarrow> parsed" where
  "fromisoformat0 s =
     (if s = ''2024-01-01T00:00:00'' then Naive 0
      else if s = ''2024-01-21T00:00:00'' then Naive (20 * day)
      else if s = ''2024-02-20T00:00:00'' then Naive (50 * day)
      else if s = ''2024-03-01T00:00:00'' then Naive (60 * day)
      else if s = ''2024-03-01T00:00:00+01:00'' then Aware
      else Invalid)"

definition isoformat0 :: "int \<Rightarrow> string" where
  "isoformat0 t =
     (if t = 0 then ''2024-01-01T00:00:00''
      else if t = 20 * day then ''2024-01-21T00:00:00''
      else if t = 50 * day then ''2024-02-20T00:00:00''
      else ''2024-03-01T00:00:00'')"

definition E0 :: env where
  "E0 = \<lparr>clock = (\<lambda>k. 60 * day), fromisoformat = fromisoformat0, isoformat = isoformat0,
          max_age_days = 30\<rparr>"

text \<open>A listing of the shape the scraper builds, with id, price and timestamps as given.\<close>

definition flat :: "string \<Rightarrow> rat \<Rightarrow> string \<Rightarrow> listing" where
  "flat i p t =
     [(''id'', PStr i), (''url'', PStr (''https://www.pararius.com/apartment-for-rent/x/'' @ i)),
      (''title'', PStr ''Flat''), (''price'', PNum p), (''size'', PNum 50), (''rooms'', PNum 2),
      (''location'', PStr ''Rotterdam''), (''interior'', PStr ''Unknown''), (''image_url'', PNone),
      (''agency'', PStr ''Unknown''), (''first_seen'', PStr t), (''last_updated'', PStr t)]"

definition undated :: "listing \<Rightarrow> listing" where
  "undated l = filter (\<lambda>kv. fst kv \<noteq> ''first_seen'') l"

definition new0 :: "listing list" where
  "new0 = [flat ''a'' 1200 ''2024-03-01T00:00:00'', flat ''b'' 1300 ''2024-03-01T00:00:00'']"

definition stored0 :: "listing list" where
  "stored0 = [flat ''b'' 1250 ''2024-02-20T00:00:00'', flat ''c'' 900 ''2024-02-20T00:00:00'',
              flat ''d'' 950 ''2024-01-01T00:00:00'']"

definition flat_b_updated :: listing where
  "flat_b_updated =
     AList.update ''last_updated'' (PStr ''2024-03-01T00:00:00'')
       (flat ''b'' 1300 ''2024-02-20T00:00:00'')"

definition stored1 :: "listing list" where
  "stored1 = [flat ''c'' 900 ''2024-02-20T00:00:00'', flat ''d'' 950 ''2024-01-01T00:00:00'',
              flat ''e'' 800 ''yesterday'', undated (flat ''g'' 700 ''2024-02-20T00:00:00'')]"

text \<open>
  The same library with a clock that stands at the twenty-first of January for its first
  three readings and at the first of March afterwards: a crawl that ends long after it began.
\<close>

definition E1 :: env where
  "E1 = \<lparr>clock = (\<lambda>k. if k < 3 then 20 * day else 60 * day), fromisoformat = fromisoformat0,
          isoformat = isoformat0, max_age_days = 30\<rparr>"

definition flat_d_updated :: listing where
  "flat_d_updated =
     AList.update ''last_updated'' (PStr ''2024-03-01T00:00:00'')
       (flat ''d'' 975 ''2024-01-01T00:00:00'')"

text \<open>The configuration of the repository's test, and its listing fragment.\<close>

definition cfg0 :: scraper where
  "cfg0 = \<lparr>price_range = [(''min'', Some 800), (''max'', Some 1500)], min_bedrooms = Some 2,
     min_size = Some 50, request_delay = 5, max_retries = 3\<rparr>"

definition elem0 :: element where
  "elem0 = \<lparr>title_link = Some \<lparr>href = Some ''/apartment-for-rent/rotterdam/test123'',
                               link_text = ''Test Apartment''\<rparr>,
     price_elem = Some (euro # '' 1,200 per month''),
     sub_title_elem = None,
     divs = [\<lparr>classes = [''listing-search-item__location''], tag_text = ''Rotterdam, Centrum''\<rparr>],
     feature_items = [\<lparr>classes = [''illustrated-features__item'', ''illustrated-features__item--surface-area''], tag_text = ''75 m'' @ [CHR 0xB2]\<rparr>,
                      \<lparr>classes = [''illustrated-features__item--number-of-rooms''], tag_text = ''3 rooms''\<rparr>,
                      \<lparr>classes = [''illustrated-features__item--interior''], tag_text = '' Furnished ''\<rparr>],
     image_elem = Some (Some ''https://www.pararius.com/images/test.jpg''),
     agency_elem = Some ''Test Agency''\<rparr>"

definition page1 :: page where
  "page1 = \<lparr>listing_elements = [elem0], next_page = True\<rparr>"

definition get1 :: "nat \<Rightarrow> string \<Rightarrow> response" where
  "get1 k url = (if k = 0 then Parsed page1 else RequestException)"

definition listing0 :: listing where
  "listing0 =
     [(''id'', PStr ''test123''),
      (''url'', PStr ''https://www.pararius.com/apartment-for-rent/rotterdam/test123''),
      (''title'', PStr ''Test Apartment''), (''price'', PNum 1200), (''size'', PNum 75),
      (''rooms'', PNum 3), (''location'', PStr ''Unknown''), (''interior'', PStr ''Furnished''),
      (''image_url'', PStr ''https://www.pararius.com/images/test.jpg''),
      (''agency'', PStr ''Test Agency''), (''first_seen'', PStr ''2024-03-01T00:00:00''),
      (''last_updated'', PStr ''2024-03-01T00:00:00'')]"

definition w0 :: world where "w0 = \<lparr>readings = 0, requests_made = 0, slept = []\<rparr>"

definition get2 :: "nat \<Rightarrow> string \<Rightarrow> response" where
  "get2 k url = (if k = 1 then Parsed page1 else RequestException)"

definition elem_no_price :: element where
  "elem_no_price = elem0\<lparr>price_elem := None\<rparr>"

definition elem_on_request :: element where
  "elem_on_request = elem0\<lparr>price_elem := Some '' Price on request ''\<rparr>"

text \<open>
  Two price texts with a euro sign: one followed by a comma and no digit, one followed by
  words.
\<close>

definition elem_separators :: element where
  "elem_separators = elem0\<lparr>price_elem := Some (euro # '' ,-'')\<rparr>"

definition elem_euro_on_request :: element where
  "elem_euro_on_request = elem0\<lparr>price_elem := Some (euro # '' on request'')\<rparr>"

section \<open>The dictionary comprehension\<close>

lemma id_of_update [simp]: "k \<noteq> ''id'' \<Longrightarrow> id_of (AList.update k v l) = id_of l"
  by (simp add: id_of_def update_conv')

lemma getitem_id: "getitem l ''id'' = Inr k \<longleftrightarrow> id_of l = Some k"
  by (auto simp: getitem_def id_of_def split: option.splits)

lemma keyed_update: "keyed d \<Longrightarrow> id_of l = Some k \<Longrightarrow> keyed (AList.update k l d)"
  unfolding keyed_def by (induction d) (auto split: if_splits)

lemma keyed_map_of: "keyed d \<Longrightarrow> map_of d k = Some l \<Longrightarrow> id_of l = Some k"
  unfolding keyed_def by (auto dest: map_of_SomeD)

lemma by_id_keyed: "by_id ls d = Inr d' \<Longrightarrow> keyed d \<Longrightarrow> keyed d'"
  by (induction ls arbitrary: d) (auto simp: getitem_id keyed_update split: sum.splits)

lemma by_id_distinct: "by_id ls d = Inr d' \<Longrightarrow> distinct (map fst d) \<Longrightarrow> distinct (map fst d')"
  by (induction ls arbitrary: d) (auto simp: distinct_update split: sum.splits)

lemma by_id_keys:
  "by_id ls d = Inr d' \<Longrightarrow> fst ` set d' = fst ` set d \<union> {k. \<exists>l \<in> set ls. id_of l = Some k}"
proof (induction ls arbitrary: d)
  case Nil
  then show ?case by simp
next
  case (Cons l ls)
  from Cons.prems obtain k where k: "id_of l = Some k" and r: "by_id ls (AList.update k l d) = Inr d'"
    by (auto simp: getitem_id split: sum.splits)
  from Cons.IH[OF r] show ?case using k by (auto simp: dom_update)
qed

lemma by_id_has_ids: "by_id ls d = Inr d' \<Longrightarrow> l \<in> set ls \<Longrightarrow> id_of l \<noteq> None"
  by (induction ls arbitrary: d) (auto simp: getitem_id split: sum.splits)

lemma by_id_ids:
  assumes "by_id ls [] = Inr d'"
  shows "Some ` fst ` set d' = id_of ` set ls"
proof -
  have "fst ` set d' = {k. \<exists>l \<in> set ls. id_of l = Some k}"
    using by_id_keys[OF assms] by simp
  moreover have "\<forall>l \<in> set ls. id_of l \<noteq> None"
    using by_id_has_ids[OF assms] by blast
  ultimately show ?thesis by force
qed

section \<open>The classification loop\<close>

lemma classify_item_cases:
  assumes "classify_item E ex (k, nl) (d, a, u, n) = Inr s'"
  obtains (added) "map_of ex k = None" "log_title_url nl = Inr ()" "s' = (d, a @ [nl], u, n)"
  | (updated) el fs where "map_of ex k = Some el" "is_listing_updated nl el"
      "map_of el ''first_seen'' = Some fs" "log_title_url (stamped E n fs nl) = Inr ()"
      "s' = (AList.update k (stamped E n fs nl) d, a, u @ [stamped E n fs nl], n + 1)"
  | (unchanged) el where "map_of ex k = Some el" "\<not> is_listing_updated nl el"
      "s' = (AList.update k el d, a, u, n)"
  using assms unfolding classify_item_def stamped_def
  by (auto simp: Let_def getitem_def split: option.splits sum.splits if_splits)

lemma classify_Cons:
  "classify E ex ((k, nl) # items) s = Inr s' \<longleftrightarrow>
   (\<exists>s1. classify_item E ex (k, nl) s = Inr s1 \<and> classify E ex items s1 = Inr s')"
  by (auto split: sum.splits)

lemma classify_mono:
  "classify E ex items (d, a, u, n) = Inr (d', a', u', n') \<Longrightarrow>
   set a \<subseteq> set a' \<and> set u \<subseteq> set u' \<and> n \<le> n'"
proof (induction items arbitrary: d a u n)
  case Nil
  then show ?case by simp
next
  case (Cons item items)
  obtain k nl where item: "item = (k, nl)" by (cases item)
  from Cons.prems obtain s1 where s1: "classify_item E ex (k, nl) (d, a, u, n) = Inr s1"
    and r: "classify E ex items s1 = Inr (d', a', u', n')"
    unfolding item classify_Cons by blast
  from s1 show ?case
  proof (cases rule: classify_item_cases)
    case added
    with Cons.IH[of d "a @ [nl]" u n] r show ?thesis by auto
  next
    case (updated el fs)
    from Cons.IH[OF r[unfolded updated(5)]] show ?thesis by auto
  next
    case (unchanged el)
    from Cons.IH[OF r[unfolded unchanged(3)]] show ?thesis by auto
  qed
qed

lemma classify_frame:
  "classify E ex items (d, a, u, n) = Inr (d', a', u', n') \<Longrightarrow> k \<notin> fst ` set items \<Longrightarrow>
   map_of d' k = map_of d k"
proof (induction items arbitrary: d a u n)
  case Nil
  then show ?case by simp
next
  case (Cons item items)
  obtain k1 nl where item: "item = (k1, nl)" by (cases item)
  from Cons.prems(2) have ne: "k1 \<noteq> k" and nin: "k \<notin> fst ` set items" by (auto simp: item)
  from Cons.prems obtain s1 where s1: "classify_item E ex (k1, nl) (d, a, u, n) = Inr s1"
    and r: "classify E ex items s1 = Inr (d', a', u', n')"
    unfolding item classify_Cons by blast
  from s1 show ?case
  proof (cases rule: classify_item_cases)
    case added
    with Cons.IH[of d "a @ [nl]" u n] r nin show ?thesis by auto
  next
    case (updated el fs)
    with Cons.IH[of _ a "u @ [stamped E n fs nl]" "n + 1"] r nin ne show ?thesis
      by (auto simp: update_conv')
  next
    case (unchanged el)
    with Cons.IH[of _ a u n] r nin ne show ?thesis by (auto simp: update_conv')
  qed
qed

lemma classify_keys:
  "classify E ex items (d, a, u, n) = Inr (d', a', u', n') \<Longrightarrow>
   fst ` set items \<subseteq> fst ` set d \<Longrightarrow> map fst d' = map fst d"
proof (induction items arbitrary: d a u n)
  case Nil
  then show ?case by simp
next
  case (Cons item items)
  obtain k nl where item: "item = (k, nl)" by (cases item)
  from Cons.prems(2) have kin: "k \<in> fst ` set d" and sub: "fst ` set items \<subseteq> fst ` set d"
    by (auto simp: item)
  from Cons.prems obtain s1 where s1: "classify_item E ex (k, nl) (d, a, u, n) = Inr s1"
    and r: "classify E ex items s1 = Inr (d', a', u', n')"
    unfolding item classify_Cons by blast
  have upd: "\<And>v. map fst (AList.update k v d) = map fst d" "\<And>v. fst ` set (AList.update k v d) = fst ` set d"
    using kin by (auto simp: update_keys dom_update)
  from s1 show ?case
  proof (cases rule: classify_item_cases)
    case added
    with Cons.IH[of d "a @ [nl]" u n] r sub show ?thesis by auto
  next
    case (updated el fs)
    with Cons.IH[of _ a "u @ [stamped E n fs nl]" "n + 1"] r sub upd show ?thesis by auto
  next
    case (unchanged el)
    with Cons.IH[of _ a u n] r sub upd show ?thesis by auto
  qed
qed

lemma id_of_stamped [simp]: "id_of (stamped E j fs nl) = id_of nl"
  by (simp add: stamped_def)

lemma classify_keyed:
  "classify E ex items (d, a, u, n) = Inr (d', a', u', n') \<Longrightarrow>
   keyed ex \<Longrightarrow> keyed items \<Longrightarrow> keyed d \<Longrightarrow> keyed d'"
proof (induction items arbitrary: d a u n)
  case Nil
  then show ?case by simp
next
  case (Cons item items)
  obtain k nl where item: "item = (k, nl)" by (cases item)
  from Cons.prems(3) have nl: "id_of nl = Some k" and it: "keyed items"
    by (auto simp: item keyed_def)
  from Cons.prems obtain s1 where s1: "classify_item E ex (k, nl) (d, a, u, n) = Inr s1"
    and r: "classify E ex items s1 = Inr (d', a', u', n')"
    unfolding item classify_Cons by blast
  from s1 show ?case
  proof (cases rule: classify_item_cases)
    case added
    with Cons.IH[of d "a @ [nl]" u n] r it Cons.prems show ?thesis by auto
  next
    case (updated el fs)
    have "keyed (AList.update k (stamped E n fs nl) d)"
      using Cons.prems(4) nl by (simp add: keyed_update)
    with updated Cons.IH[of _ a "u @ [stamped E n fs nl]" "n + 1"] r it Cons.prems(2)
    show ?thesis by auto
  next
    case (unchanged el)
    have "id_of el = Some k" using keyed_map_of[OF Cons.prems(2) unchanged(1)] .
    then have "keyed (AList.update k el d)" using Cons.prems(4) by (simp add: keyed_update)
    with unchanged Cons.IH[of _ a u n] r it Cons.prems(2) show ?thesis by auto
  qed
qed

lemma classify_added:
  "classify E ex items (d, a, u, n) = Inr (d', a', u', n') \<Longrightarrow> l \<in> set a' \<Longrightarrow>
   l \<in> set a \<or> (\<exists>k. (k, l) \<in> set items \<and> map_of ex k = None)"
proof (induction items arbitrary: d a u n)
  case Nil
  then show ?case by simp
next
  case (Cons item items)
  obtain k nl where item: "item = (k, nl)" by (cases item)
  from Cons.prems obtain s1 where s1: "classify_item E ex (k, nl) (d, a, u, n) = Inr s1"
    and r: "classify E ex items s1 = Inr (d', a', u', n')"
    unfolding item classify_Cons by blast
  from s1 show ?case
  proof (cases rule: classify_item_cases)
    case added
    from Cons.IH[OF r[unfolded added(3)] Cons.prems(2)] added(1) show ?thesis
      by (auto simp: item)
  next
    case (updated el fs)
    from Cons.IH[OF r[unfolded updated(5)] Cons.prems(2)] show ?thesis by (auto simp: item)
  next
    case (unchanged el)
    from Cons.IH[OF r[unfolded unchanged(3)] Cons.prems(2)] show ?thesis by (auto simp: item)
  qed
qed

lemma classify_updated:
  "classify E ex items (d, a, u, n) = Inr (d', a', u', n') \<Longrightarrow> l \<in> set u' \<Longrightarrow>
   l \<in> set u \<or>
   (\<exists>k nl el fs j. (k, nl) \<in> set items \<and> map_of ex k = Some el \<and> is_listing_updated nl el \<and>
      map_of el ''first_seen'' = Some fs \<and> n \<le> j \<and> j < n' \<and> l = stamped E j fs nl)"
proof (induction items arbitrary: d a u n)
  case Nil
  then show ?case by simp
next
  case (Cons item items)
  obtain k nl where item: "item = (k, nl)" by (cases item)
  from Cons.prems obtain s1 where s1: "classify_item E ex (k, nl) (d, a, u, n) = Inr s1"
    and r: "classify E ex items s1 = Inr (d', a', u', n')"
    unfolding item classify_Cons by blast
  from s1 show ?case
  proof (cases rule: classify_item_cases)
    case added
    from Cons.IH[OF r[unfolded added(3)] Cons.prems(2)] show ?thesis
      unfolding item by (elim disjE exE conjE) (simp, fastforce)
  next
    case (updated el fs)
    from classify_mono[OF r[unfolded updated(5)]] have lt: "n < n'" by simp
    from Cons.IH[OF r[unfolded updated(5)] Cons.prems(2)]
    consider "l \<in> set u" | "l = stamped E n fs nl"
      | k' nl' el' fs' j where "(k', nl') \<in> set items" "map_of ex k' = Some el'"
          "is_listing_updated nl' el'" "map_of el' ''first_seen'' = Some fs'" "n + 1 \<le> j" "j < n'"
          "l = stamped E j fs' nl'"
      by auto
    then show ?thesis
    proof cases
      case 1
      then show ?thesis by simp
    next
      case 2
      with updated lt show ?thesis unfolding item by fastforce
    next
      case 3
      then have "(k', nl') \<in> set (item # items)" "n \<le> j" by auto
      with 3 show ?thesis by blast
    qed
  next
    case (unchanged el)
    from Cons.IH[OF r[unfolded unchanged(3)] Cons.prems(2)] show ?thesis
      unfolding item by (elim disjE exE conjE) (simp, fastforce)
  qed
qed

lemma classify_item_result:
  assumes "classify E ex items (d, a, u, n) = Inr (d', a', u', n')"
    and "distinct (map fst items)" and "(k, nl) \<in> set items"
  shows "(map_of ex k = None \<longrightarrow> map_of d' k = map_of d k \<and> nl \<in> set a') \<and>
         (\<forall>el. map_of ex k = Some el \<and> is_listing_updated nl el \<longrightarrow>
            (\<exists>fs j. map_of el ''first_seen'' = Some fs \<and> n \<le> j \<and> j < n' \<and>
                    map_of d' k = Some (stamped E j fs nl) \<and> stamped E j fs nl \<in> set u')) \<and>
         (\<forall>el. map_of ex k = Some el \<and> \<not> is_listing_updated nl el \<longrightarrow> map_of d' k = Some el)"
  using assms
proof (induction items arbitrary: d a u n)
  case Nil
  then show ?case by simp
next
  case (Cons item items)
  obtain k1 nl1 where item: "item = (k1, nl1)" by (cases item)
  from Cons.prems(2) have k1: "k1 \<notin> fst ` set items" and dist: "distinct (map fst items)"
    by (auto simp: item)
  from Cons.prems(1) obtain s1 where s1: "classify_item E ex (k1, nl1) (d, a, u, n) = Inr s1"
    and r: "classify E ex items s1 = Inr (d', a', u', n')"
    unfolding item classify_Cons by blast
  show ?case
  proof (cases "(k, nl) \<in> set items")
    case True
    then have ne: "k \<noteq> k1" using k1 by force
    from s1 show ?thesis
    proof (cases rule: classify_item_cases)
      case added
      from Cons.IH[OF r[unfolded added(3)] dist True] show ?thesis by simp
    next
      case (updated el fs)
      from Cons.IH[OF r[unfolded updated(5)] dist True] ne show ?thesis
        by (simp add: update_conv') (meson Suc_leD)
    next
      case (unchanged el)
      from Cons.IH[OF r[unfolded unchanged(3)] dist True] ne show ?thesis
        by (simp add: update_conv')
    qed
  next
    case False
    with Cons.prems(3) have eq: "k1 = k" "nl1 = nl" by (auto simp: item)
    from s1 show ?thesis
    proof (cases rule: classify_item_cases)
      case added
      from classify_frame[OF r[unfolded added(3)] k1] classify_mono[OF r[unfolded added(3)]] added(1)
      show ?thesis unfolding eq by auto
    next
      case (updated el fs)
      from classify_frame[OF r[unfolded updated(5)] k1] classify_mono[OF r[unfolded updated(5)]]
      have "map_of d' k = Some (stamped E n fs nl)" "stamped E n fs nl \<in> set u'" "n < n'"
        unfolding eq by (auto simp: update_conv')
      with updated show ?thesis unfolding eq by auto
    next
      case (unchanged el)
      from classify_frame[OF r[unfolded unchanged(3)] k1] unchanged
      show ?thesis unfolding eq by (auto simp: update_conv')
    qed
  qed
qed

section \<open>The preserved listings\<close>

lemma preserved_Cons:
  "preserved_listings E d ((k, l) # items) n = Inr (ps, n') \<longleftrightarrow>
   (if map_of d k \<noteq> None then preserved_listings E d items n = Inr (ps, n')
    else \<exists>old m rest. is_listing_too_old E l n = Inr (old, m) \<and>
           preserved_listings E d items m = Inr (rest, n') \<and>
           ps = (if old then rest else l # rest))"
  by (auto split: sum.splits)

lemma is_listing_too_old_ticks: "is_listing_too_old E l n = Inr (b, m) \<Longrightarrow> n < m"
  by (auto simp: is_listing_too_old_def split: option.splits pyval.splits parsed.splits if_splits)

lemma preserved_mono: "preserved_listings E d items n = Inr (ps, n') \<Longrightarrow> n \<le> n'"
proof (induction items arbitrary: ps n)
  case Nil
  then show ?case by simp
next
  case (Cons item items)
  obtain k l where item: "item = (k, l)" by (cases item)
  show ?case
  proof (cases "map_of d k \<noteq> None")
    case True
    with Cons.prems Cons.IH show ?thesis unfolding item preserved_Cons by auto
  next
    case False
    with Cons.prems obtain old m rest where o: "is_listing_too_old E l n = Inr (old, m)"
      and r: "preserved_listings E d items m = Inr (rest, n')"
      unfolding item preserved_Cons by auto
    from Cons.IH[OF r] is_listing_too_old_ticks[OF o] show ?thesis by simp
  qed
qed

lemma preserved_sub:
  "preserved_listings E d items n = Inr (ps, n') \<Longrightarrow> l \<in> set ps \<Longrightarrow>
   \<exists>k j m. (k, l) \<in> set items \<and> map_of d k = None \<and> n \<le> j \<and> m \<le> n' \<and>
     is_listing_too_old E l j = Inr (False, m)"
proof (induction items arbitrary: ps n)
  case Nil
  then show ?case by simp
next
  case (Cons item items)
  obtain k1 l1 where item: "item = (k1, l1)" by (cases item)
  show ?case
  proof (cases "map_of d k1 \<noteq> None")
    case True
    with Cons.prems have "preserved_listings E d items n = Inr (ps, n')"
      unfolding item preserved_Cons by auto
    from Cons.IH[OF this Cons.prems(2)] show ?thesis by auto
  next
    case False
    with Cons.prems obtain old m rest where o: "is_listing_too_old E l1 n = Inr (old, m)"
      and r: "preserved_listings E d items m = Inr (rest, n')"
      and ps: "ps = (if old then rest else l1 # rest)"
      unfolding item preserved_Cons by auto
    show ?thesis
    proof (cases "l \<in> set rest")
      case True
      from Cons.IH[OF r True] obtain k j m' where
        "(k, l) \<in> set items" "map_of d k = None" "m \<le> j" "m' \<le> n'"
        "is_listing_too_old E l j = Inr (False, m')" by blast
      moreover have "n \<le> j" using \<open>m \<le> j\<close> is_listing_too_old_ticks[OF o] by simp
      ultimately show ?thesis by auto
    next
      case nin: False
      with ps Cons.prems(2) have "l = l1" "\<not> old" by (auto split: if_splits)
      with o False preserved_mono[OF r] show ?thesis unfolding item by auto
    qed
  qed
qed

lemma preserved_kept:
  "preserved_listings E d items n = Inr (ps, n') \<Longrightarrow> (k, l) \<in> set items \<Longrightarrow> map_of d k = None \<Longrightarrow>
   \<exists>j b m. n \<le> j \<and> m \<le> n' \<and> is_listing_too_old E l j = Inr (b, m) \<and> (\<not> b \<longrightarrow> l \<in> set ps)"
proof (induction items arbitrary: ps n)
  case Nil
  then show ?case by simp
next
  case (Cons item items)
  obtain k1 l1 where item: "item = (k1, l1)" by (cases item)
  show ?case
  proof (cases "map_of d k1 \<noteq> None")
    case True
    with Cons.prems have r: "preserved_listings E d items n = Inr (ps, n')"
      and "(k, l) \<in> set items"
      unfolding item preserved_Cons by auto
    from Cons.IH[OF this Cons.prems(3)] show ?thesis by auto
  next
    case False
    with Cons.prems obtain old m rest where o: "is_listing_too_old E l1 n = Inr (old, m)"
      and r: "preserved_listings E d items m = Inr (rest, n')"
      and ps: "ps = (if old then rest else l1 # rest)"
      unfolding item preserved_Cons by auto
    show ?thesis
    proof (cases "(k, l) \<in> set items")
      case True
      from Cons.IH[OF r True Cons.prems(3)] obtain j b m' where
        "m \<le> j" "m' \<le> n'" "is_listing_too_old E l j = Inr (b, m')" "\<not> b \<longrightarrow> l \<in> set rest"
        by blast
      moreover have "n \<le> j" using \<open>m \<le> j\<close> is_listing_too_old_ticks[OF o] by simp
      ultimately show ?thesis using ps by auto
    next
      case nin: False
      with Cons.prems(2) have "l1 = l" by (auto simp: item)
      with o ps preserved_mono[OF r] show ?thesis by auto
    qed
  qed
qed

lemma preserved_ids:
  "preserved_listings E d items n = Inr (ps, n') \<Longrightarrow> keyed items \<Longrightarrow> distinct (map fst items) \<Longrightarrow>
   distinct (map id_of ps) \<and>
   (\<forall>l \<in> set ps. \<exists>k. id_of l = Some k \<and> k \<in> fst ` set items \<and> map_of d k = None)"
proof (induction items arbitrary: ps n)
  case Nil
  then show ?case by simp
next
  case (Cons item items)
  obtain k1 l1 where item: "item = (k1, l1)" by (cases item)
  from Cons.prems(2,3) have l1: "id_of l1 = Some k1" and ky: "keyed items"
    and k1: "k1 \<notin> fst ` set items" and dist: "distinct (map fst items)"
    by (auto simp: item keyed_def)
  show ?case
  proof (cases "map_of d k1 \<noteq> None")
    case True
    with Cons.prems have r: "preserved_listings E d items n = Inr (ps, n')"
      unfolding item preserved_Cons by auto
    from Cons.IH[OF r ky dist] show ?thesis by auto
  next
    case False
    with Cons.prems obtain old m rest where o: "is_listing_too_old E l1 n = Inr (old, m)"
      and r: "preserved_listings E d items m = Inr (rest, n')"
      and ps: "ps = (if old then rest else l1 # rest)"
      unfolding item preserved_Cons by auto
    from Cons.IH[OF r ky dist] have ih: "distinct (map id_of rest)"
      "\<forall>l \<in> set rest. \<exists>k. id_of l = Some k \<and> k \<in> fst ` set items \<and> map_of d k = None"
      by auto
    from ih(2) k1 have "Some k1 \<notin> id_of ` set rest" by force
    with ih l1 False show ?thesis unfolding ps item by (auto, blast+)
  qed
qed

section \<open>Last write wins\<close>

lemma by_id_lookup:
  "by_id ls d = Inr d' \<Longrightarrow>
   map_of d' k = (case last_with_id ls k of None \<Rightarrow> map_of d k | Some l \<Rightarrow> Some l)"
proof (induction ls arbitrary: d)
  case Nil
  then show ?case by simp
next
  case (Cons l ls)
  from Cons.prems obtain k0 where k0: "id_of l = Some k0" and r: "by_id ls (AList.update k0 l d) = Inr d'"
    by (auto simp: getitem_id split: sum.splits)
  from Cons.IH[OF r] k0 show ?case
    by (auto simp: update_conv' split: option.splits)
qed

lemma by_id_index: "by_id ls [] = Inr d \<Longrightarrow> map_of d k = last_with_id ls k"
  by (drule by_id_lookup[where k = k]) (simp split: option.splits)

lemma last_with_id_mem: "last_with_id ls k = Some l \<Longrightarrow> l \<in> set ls \<and> id_of l = Some k"
  by (induction ls) (auto split: option.splits if_splits)

lemma last_with_id_None: "last_with_id ls k = None \<longleftrightarrow> Some k \<notin> id_of ` set ls"
  by (induction ls) (auto split: option.splits if_splits)

lemma last_with_id_distinct:
  "distinct (map id_of ls) \<Longrightarrow> l \<in> set ls \<Longrightarrow> id_of l = Some k \<Longrightarrow> last_with_id ls k = Some l"
proof (induction ls)
  case Nil
  then show ?case by simp
next
  case (Cons a ls)
  show ?case
  proof (cases "l \<in> set ls")
    case True
    with Cons show ?thesis by simp
  next
    case False
    with Cons.prems have "a = l" "Some k \<notin> id_of ` set ls" by auto
    then have "a = l" "last_with_id ls k = None" by (simp_all add: last_with_id_None)
    then show ?thesis using Cons.prems(3) by simp
  qed
qed

lemma update_fresh: "k \<notin> fst ` set d \<Longrightarrow> AList.update k v d = d @ [(k, v)]"
  by (induction d) auto

lemma by_id_distinct_ids:
  "distinct (map id_of ls) \<Longrightarrow> \<forall>l \<in> set ls. id_of l \<noteq> None \<Longrightarrow>
   \<forall>l \<in> set ls. id_of l \<notin> Some ` fst ` set d \<Longrightarrow>
   by_id ls d = Inr (d @ map (\<lambda>l. (the (id_of l), l)) ls)"
proof (induction ls arbitrary: d)
  case Nil
  then show ?case by simp
next
  case (Cons l ls)
  from Cons.prems(2) obtain k where k: "id_of l = Some k" by auto
  with Cons.prems(3) have fresh: "k \<notin> fst ` set d" by auto
  have "\<forall>x \<in> set ls. id_of x \<notin> Some ` fst ` set (d @ [(k, l)])"
  proof
    fix x assume x: "x \<in> set ls"
    with Cons.prems(1) k have "id_of x \<noteq> Some k" by (metis distinct.simps(2) image_eqI list.simps(9) set_map)
    moreover from x Cons.prems(3) have "id_of x \<notin> Some ` fst ` set d" by simp
    ultimately show "id_of x \<notin> Some ` fst ` set (d @ [(k, l)])" by auto
  qed
  with Cons.IH[of "d @ [(k, l)]"] Cons.prems(1,2)
  have "by_id ls (d @ [(k, l)]) = Inr ((d @ [(k, l)]) @ map (\<lambda>l. (the (id_of l), l)) ls)"
    by simp
  then show ?case using k fresh by (simp add: getitem_def id_of_def update_fresh)
qed

lemma not_updated_self [simp]: "\<not> is_listing_updated l l"
  by (simp add: is_listing_updated_def)

lemma classify_unchanged:
  "\<forall>(k, l) \<in> set items. map_of ex k = Some l \<and> map_of d k = Some l \<Longrightarrow>
   classify E ex items (d, a, u, n) = Inr (d, a, u, n)"
  by (induction items) (auto simp: classify_item_def update_triv)

lemma preserved_all_seen:
  "fst ` set items \<subseteq> fst ` set d \<Longrightarrow> preserved_listings E d items n = Inr ([], n)"
proof (induction items)
  case Nil
  then show ?case by simp
next
  case (Cons item items)
  obtain k l where item: "item = (k, l)" by (cases item)
  from Cons.prems have "map_of d k \<noteq> None" by (simp add: item map_of_eq_None_iff)
  with Cons show ?case by (simp add: item)
qed

section \<open>Records seen again and records not seen again\<close>

lemma compare_listings_parts:
  assumes "compare_listings E new_listings existing_listings n =
             Inr ((added, updated, all_current), n')"
  obtains ex d0 d' ps n1 where
    "by_id existing_listings [] = Inr ex" "by_id new_listings [] = Inr d0"
    "classify E ex d0 (d0, [], [], n) = Inr (d', added, updated, n1)"
    "preserved_listings E d' ex n1 = Inr (ps, n')"
    "all_current = map snd d' @ ps"
  using assms unfolding compare_listings_def by (auto split: sum.splits prod.splits)

lemma stamped_fields:
  "map_of (stamped E j fs nl) ''first_seen'' = Some fs"
  "map_of (stamped E j fs nl) ''last_updated'' = Some (PStr (isoformat E (clock E j)))"
  "f \<noteq> ''first_seen'' \<Longrightarrow> f \<noteq> ''last_updated'' \<Longrightarrow> map_of (stamped E j fs nl) f = map_of nl f"
  by (simp_all add: stamped_def update_conv')

lemma map_of_mem_snd: "map_of d k = Some v \<Longrightarrow> v \<in> set (map snd d)"
  by (force dest: map_of_SomeD)

lemma reseen_record:
  assumes cmp: "compare_listings E new_listings existing_listings n =
             Inr ((added, updated, all_current), n')"
    and fresh: "last_with_id new_listings k = Some fresh"
    and stored: "last_with_id existing_listings k = Some stored"
  shows "\<exists>r. r \<in> set all_current \<and> id_of r = Some k \<and>
           map_of r ''first_seen'' = map_of stored ''first_seen''"
proof -
  from cmp obtain ex d0 d' ps n1 where
    ex: "by_id existing_listings [] = Inr ex" and d0: "by_id new_listings [] = Inr d0" and
    cl: "classify E ex d0 (d0, [], [], n) = Inr (d', added, updated, n1)" and
    ac: "all_current = map snd d' @ ps"
    by (rule compare_listings_parts)
  have dd0: "distinct (map fst d0)" using by_id_distinct[OF d0] by simp
  have m0: "map_of d0 k = Some fresh" using by_id_index[OF d0] fresh by simp
  then have item: "(k, fresh) \<in> set d0" by (rule map_of_SomeD)
  have mex: "map_of ex k = Some stored" using by_id_index[OF ex] stored by simp
  show ?thesis
  proof (cases "is_listing_updated fresh stored")
    case True
    with classify_item_result[OF cl dd0 item] mex obtain fs j where
      fs: "map_of stored ''first_seen'' = Some fs" "map_of d' k = Some (stamped E j fs fresh)"
      by blast
    from fs(2) have "stamped E j fs fresh \<in> set all_current"
      unfolding ac using map_of_mem_snd by fastforce
    moreover have "id_of (stamped E j fs fresh) = Some k"
      using last_with_id_mem[OF fresh] by simp
    moreover have "map_of (stamped E j fs fresh) ''first_seen'' = map_of stored ''first_seen''"
      using fs(1) by (simp add: stamped_fields)
    ultimately show ?thesis by blast
  next
    case False
    with classify_item_result[OF cl dd0 item] mex have "map_of d' k = Some stored" by blast
    then have "stored \<in> set all_current" unfolding ac using map_of_mem_snd by fastforce
    with last_with_id_mem[OF stored] show ?thesis by blast
  qed
qed

lemma too_old_at:
  "first_seen_of E l = FS_at t \<Longrightarrow> is_listing_too_old E l j = Inr (b, m) \<Longrightarrow>
   m = j + 2 \<and> b = (clock E (j + 1) - t > max_age_days E * day)"
  by (auto simp: first_seen_of_def is_listing_too_old_def
      split: option.splits pyval.splits parsed.splits if_splits)

lemma too_old_unparseable:
  "first_seen_of E l = FS_unparseable \<Longrightarrow> is_listing_too_old E l j = Inr (b, m) \<Longrightarrow> \<not> b"
  by (auto simp: first_seen_of_def is_listing_too_old_def
      split: option.splits pyval.splits parsed.splits if_splits)

lemma too_old_missing:
  "first_seen_of E l = FS_missing \<Longrightarrow>
   is_listing_too_old E l j =
   is_listing_too_old E (AList.update ''first_seen'' (PStr (isoformat E (clock E j))) l) j"
  by (auto simp: first_seen_of_def is_listing_too_old_def update_conv'
      split: option.splits pyval.splits parsed.splits if_splits)

lemma too_old_missing_now:
  "first_seen_of E l = FS_missing \<Longrightarrow> fromisoformat E (isoformat E (clock E j)) = Naive (clock E j) \<Longrightarrow>
   is_listing_too_old E l j = Inr (b, m) \<Longrightarrow>
   m = j + 2 \<and> b = (clock E (j + 1) - clock E j > max_age_days E * day)"
  by (auto simp: first_seen_of_def is_listing_too_old_def
      split: option.splits pyval.splits parsed.splits if_splits)

lemma not_reseen_record:
  assumes cmp: "compare_listings E new_listings existing_listings n =
             Inr ((added, updated, all_current), n')"
    and stored: "last_with_id existing_listings k = Some stored"
    and absent: "last_with_id new_listings k = None"
  shows "\<exists>j b m. n \<le> j \<and> m \<le> n' \<and> is_listing_too_old E stored j = Inr (b, m) \<and>
           (\<not> b \<longrightarrow> stored \<in> set all_current)"
    and "(\<forall>j b m. n \<le> j \<and> m \<le> n' \<and> is_listing_too_old E stored j = Inr (b, m) \<longrightarrow> b) \<Longrightarrow>
           \<forall>r \<in> set all_current. id_of r \<noteq> Some k"
proof -
  from cmp obtain ex d0 d' ps n1 where
    ex: "by_id existing_listings [] = Inr ex" and d0: "by_id new_listings [] = Inr d0" and
    cl: "classify E ex d0 (d0, [], [], n) = Inr (d', added, updated, n1)" and
    ps: "preserved_listings E d' ex n1 = Inr (ps, n')" and
    ac: "all_current = map snd d' @ ps"
    by (rule compare_listings_parts)
  have kex: "keyed ex" and dex: "distinct (map fst ex)"
    using by_id_keyed[OF ex] by_id_distinct[OF ex] by (simp_all add: keyed_def)
  have kd0: "keyed d0" using by_id_keyed[OF d0] by (simp add: keyed_def)
  have kd': "keyed d'" by (rule classify_keyed[OF cl kex kd0 kd0])
  have keys: "map fst d' = map fst d0" by (rule classify_keys[OF cl]) simp
  have "map_of d0 k = None" using by_id_index[OF d0] absent by simp
  then have "k \<notin> fst ` set d0" by (simp add: map_of_eq_None_iff)
  then have "k \<notin> set (map fst d')" unfolding keys by simp
  then have nd': "map_of d' k = None" by (simp add: map_of_eq_None_iff)
  have mex: "map_of ex k = Some stored" using by_id_index[OF ex] stored by simp
  then have item: "(k, stored) \<in> set ex" by (rule map_of_SomeD)
  have nn1: "n \<le> n1" using classify_mono[OF cl] by simp
  from preserved_kept[OF ps item nd'] obtain j b m where
    j: "n1 \<le> j" "m \<le> n'" "is_listing_too_old E stored j = Inr (b, m)"
       "\<not> b \<longrightarrow> stored \<in> set ps"
    by blast
  with nn1 show "\<exists>j b m. n \<le> j \<and> m \<le> n' \<and> is_listing_too_old E stored j = Inr (b, m) \<and>
           (\<not> b \<longrightarrow> stored \<in> set all_current)"
    unfolding ac by (intro exI[of _ j] exI[of _ b] exI[of _ m]) simp
  assume old: "\<forall>j b m. n \<le> j \<and> m \<le> n' \<and> is_listing_too_old E stored j = Inr (b, m) \<longrightarrow> b"
  show "\<forall>r \<in> set all_current. id_of r \<noteq> Some k"
  proof
    fix r assume "r \<in> set all_current"
    then consider "r \<in> snd ` set d'" | "r \<in> set ps" unfolding ac by auto
    then show "id_of r \<noteq> Some k"
    proof cases
      case 1
      then obtain k' where k': "(k', r) \<in> set d'" by force
      with kd' have "id_of r = Some k'" by (auto simp: keyed_def)
      moreover from k' nd' have "k' \<noteq> k" by (metis map_of_eq_None_iff image_eqI fst_conv)
      ultimately show ?thesis by simp
    next
      case 2
      from preserved_sub[OF ps 2] obtain k' j m where
        k': "(k', r) \<in> set ex" "n1 \<le> j" "m \<le> n'" "is_listing_too_old E r j = Inr (False, m)"
        by blast
      from k'(1) kex have idr: "id_of r = Some k'" by (auto simp: keyed_def)
      show ?thesis
      proof
        assume "id_of r = Some k"
        with idr have "k' = k" by simp
        with k'(1) dex item have "r = stored" by (metis eq_key_imp_eq_value)
        moreover have "n \<le> j" using nn1 k'(2) by simp
        ultimately show False using k'(3,4) old by blast
      qed
    qed
  qed
qed

section \<open>Properties of the reconciler\<close>

lemmas eval_simps =
  compare_listings_def classify_item_def getitem_def py_get_def is_listing_updated_def
  is_listing_too_old_def log_title_url_def E0_def fromisoformat0_def isoformat0_def day_def
  new0_def stored0_def stored1_def flat_def flat_b_updated_def undated_def id_of_def
  first_seen_of_def Let_def

text \<open>
  Claim C1.  Whenever \<^verbatim>\<open>compare_listings\<close> returns \<^verbatim>\<open>(added, updated, allCurrent)\<close>, every
  listing of \<^verbatim>\<open>added\<close> has an id that no stored listing has, every listing of \<^verbatim>\<open>updated\<close>
  has an id that occurs among the fresh and among the stored listings, and no two listings
  of \<^verbatim>\<open>allCurrent\<close> have the same id.
\<close>

theorem compare_listings_classification:
  assumes "compare_listings E new_listings existing_listings n =
             Inr ((added, updated, all_current), n')"
  shows "(\<forall>l \<in> set added. id_of l \<noteq> None \<and> id_of l \<notin> id_of ` set existing_listings) \<and>
         (\<forall>l \<in> set updated. id_of l \<noteq> None \<and> id_of l \<in> id_of ` set new_listings \<and>
                             id_of l \<in> id_of ` set existing_listings) \<and>
         (\<forall>l \<in> set all_current. id_of l \<noteq> None) \<and> distinct (map id_of all_current)"
proof -
  from assms obtain ex d0 d' ps n1 where
    ex: "by_id existing_listings [] = Inr ex" and
    d0: "by_id new_listings [] = Inr d0" and
    cl: "classify E ex d0 (d0, [], [], n) = Inr (d', added, updated, n1)" and
    ps: "preserved_listings E d' ex n1 = Inr (ps, n')" and
    ac: "all_current = map snd d' @ ps"
    unfolding compare_listings_def by (auto split: sum.splits prod.splits)
  have kex: "keyed ex" and dex: "distinct (map fst ex)"
    using by_id_keyed[OF ex] by_id_distinct[OF ex] by (simp_all add: keyed_def)
  have kd0: "keyed d0" and dd0: "distinct (map fst d0)"
    using by_id_keyed[OF d0] by_id_distinct[OF d0] by (simp_all add: keyed_def)
  have iex: "Some ` fst ` set ex = id_of ` set existing_listings" by (rule by_id_ids[OF ex])
  have id0: "Some ` fst ` set d0 = id_of ` set new_listings" by (rule by_id_ids[OF d0])
  have kd': "keyed d'" by (rule classify_keyed[OF cl kex kd0 kd0])
  have keys: "map fst d' = map fst d0" by (rule classify_keys[OF cl]) simp
  have A: "id_of l \<noteq> None \<and> id_of l \<notin> id_of ` set existing_listings" if "l \<in> set added" for l
  proof -
    from classify_added[OF cl that] obtain k where k: "(k, l) \<in> set d0" "map_of ex k = None"
      by auto
    from k(1) kd0 have "id_of l = Some k" by (auto simp: keyed_def)
    moreover from k(2) have "k \<notin> fst ` set ex" by (simp add: map_of_eq_None_iff)
    ultimately show ?thesis using iex by (metis image_iff option.distinct(1) option.inject)
  qed
  have U: "id_of l \<noteq> None \<and> id_of l \<in> id_of ` set new_listings \<and>
           id_of l \<in> id_of ` set existing_listings" if "l \<in> set updated" for l
  proof -
    from classify_updated[OF cl that] obtain k nl el fs j where
      k: "(k, nl) \<in> set d0" "map_of ex k = Some el" "l = stamped E j fs nl" by auto
    from k(1) kd0 have "id_of nl = Some k" by (auto simp: keyed_def)
    then have "id_of l = Some k" using k(3) by simp
    moreover from k(1) have "Some k \<in> Some ` fst ` set d0" by force
    moreover from k(2) have "Some k \<in> Some ` fst ` set ex"
      by (metis image_eqI map_of_eq_None_iff option.distinct(1))
    ultimately show ?thesis using iex id0 by simp
  qed
  have m1: "map id_of (map snd d') = map Some (map fst d')"
    using kd' by (induction d') (auto simp: keyed_def)
  from preserved_ids[OF ps kex dex] have P: "distinct (map id_of ps)"
    "\<forall>l \<in> set ps. \<exists>k. id_of l = Some k \<and> k \<in> fst ` set ex \<and> map_of d' k = None"
    by auto
  have disj: "set (map id_of (map snd d')) \<inter> set (map id_of ps) = {}"
  proof -
    { fix l assume "l \<in> set ps"
      with P(2) obtain k where "id_of l = Some k" "map_of d' k = None" by blast
      then have "id_of l \<notin> Some ` fst ` set d'" by (auto simp: map_of_eq_None_iff) }
    then show ?thesis unfolding m1 by force
  qed
  have D: "distinct (map id_of all_current)"
    unfolding ac using P(1) disj dd0 keys
    by (simp add: m1 distinct_map del: map_map) 
  have N: "id_of l \<noteq> None" if "l \<in> set all_current" for l
  proof -
    from that ac consider "l \<in> snd ` set d'" | "l \<in> set ps" by auto
    then show ?thesis
    proof cases
      case 1
      then show ?thesis using kd' by (auto simp: keyed_def)
    next
      case 2
      then show ?thesis using P(2) by auto
    qed
  qed
  from A U N D show ?thesis by blast
qed

theorem compare_listings_classification_witness:
  "compare_listings E0 new0 stored0 0 =
     Inr (([flat ''a'' 1200 ''2024-03-01T00:00:00''], [flat_b_updated],
           [flat ''a'' 1200 ''2024-03-01T00:00:00'', flat_b_updated,
            flat ''c'' 900 ''2024-02-20T00:00:00'']), 5) \<and>
   id_of (flat ''a'' 1200 ''2024-03-01T00:00:00'') \<noteq> None \<and>
   id_of (flat ''a'' 1200 ''2024-03-01T00:00:00'') \<notin> id_of ` set stored0 \<and>
   id_of flat_b_updated \<noteq> None \<and>
   id_of flat_b_updated \<in> id_of ` set new0 \<and>
   id_of flat_b_updated \<in> id_of ` set stored0 \<and>
   id_of (flat ''c'' 900 ''2024-02-20T00:00:00'') \<noteq> None \<and>
   distinct (map id_of [flat ''a'' 1200 ''2024-03-01T00:00:00'', flat_b_updated,
                        flat ''c'' 900 ''2024-02-20T00:00:00''])"
proof -
  have run: "compare_listings E0 new0 stored0 0 =
     Inr (([flat ''a'' 1200 ''2024-03-01T00:00:00''], [flat_b_updated],
           [flat ''a'' 1200 ''2024-03-01T00:00:00'', flat_b_updated,
            flat ''c'' 900 ''2024-02-20T00:00:00'']), 5)"
    by (simp add: eval_simps)
  from compare_listings_classification[OF run] have
    "id_of (flat ''a'' 1200 ''2024-03-01T00:00:00'') \<noteq> None \<and>
     id_of (flat ''a'' 1200 ''2024-03-01T00:00:00'') \<notin> id_of ` set stored0 \<and>
     id_of flat_b_updated \<noteq> None \<and>
     id_of flat_b_updated \<in> id_of ` set new0 \<and>
     id_of flat_b_updated \<in> id_of ` set stored0 \<and>
     id_of (flat ''c'' 900 ''2024-02-20T00:00:00'') \<noteq> None \<and>
     distinct (map id_of [flat ''a'' 1200 ''2024-03-01T00:00:00'', flat_b_updated,
                          flat ''c'' 900 ''2024-02-20T00:00:00''])"
    by (simp only: list.set ball_simps bex_simps insert_iff empty_iff simp_thms)
  with run show ?thesis by (rule conjI)
qed

text \<open>
  Claim C2.  Reconciliation is idempotent: for a list \<open>S\<close> of listings with pairwise distinct
  ids, \<^verbatim>\<open>compare_listings(S, S)\<close> returns an empty \<^verbatim>\<open>added\<close>, an empty \<^verbatim>\<open>updated\<close> and
  \<open>S\<close> itself as \<^verbatim>\<open>allCurrent\<close>, so the number of records is unchanged; the clock is not read.
\<close>

theorem compare_listings_idempotent:
  assumes "distinct (map id_of S)" and "\<forall>l \<in> set S. id_of l \<noteq> None"
  shows "compare_listings E S S n = Inr (([], [], S), n)"
proof -
  let ?d = "map (\<lambda>l. (the (id_of l), l)) S"
  have d: "by_id S [] = Inr ?d" using by_id_distinct_ids[OF assms, of "[]"] by simp
  have look: "\<forall>(k, l) \<in> set ?d. map_of ?d k = Some l"
  proof -
    { fix l assume l: "l \<in> set S"
      with assms(2) obtain k where k: "id_of l = Some k" by auto
      have "map_of ?d k = Some l"
        using by_id_index[OF d, of k] last_with_id_distinct[OF assms(1) l k] by simp
      with k have "map_of ?d (the (id_of l)) = Some l" by simp }
    then show ?thesis by auto
  qed
  have c: "classify E ?d ?d (?d, [], [], n) = Inr (?d, [], [], n)"
    by (rule classify_unchanged) (use look in auto)
  have p: "preserved_listings E ?d ?d n = Inr ([], n)" by (rule preserved_all_seen) simp
  have "map snd ?d = S" by (induction S) auto
  with d c p show ?thesis by (simp add: compare_listings_def)
qed

theorem compare_listings_idempotent_witness:
  "distinct (map id_of stored0) \<and> None \<notin> id_of ` set stored0 \<and>
   compare_listings E0 stored0 stored0 0 = Inr (([], [], stored0), 0)"
proof -
  have d: "distinct (map id_of stored0)" by (simp add: stored0_def flat_def id_of_def)
  have i: "\<forall>l \<in> set stored0. id_of l \<noteq> None" by (simp add: stored0_def flat_def id_of_def)
  from i have "None \<notin> id_of ` set stored0" by force
  with d compare_listings_idempotent[OF d i] show ?thesis by (intro conjI)
qed

text \<open>
  Claim C3.  Let \<open>fresh\<close> and \<open>stored\<close> be the fresh and the stored listing filed under the
  id \<open>k\<close>, and let a compared field differ, so that \<open>fresh\<close> is classified as updated.  When
  \<^verbatim>\<open>compare_listings\<close> returns, one and the same listing \<open>r\<close> is in \<^verbatim>\<open>updated\<close> and in
  \<^verbatim>\<open>allCurrent\<close>; its \<^verbatim>\<open>first_seen\<close> is the stored one, its \<^verbatim>\<open>last_updated\<close> is the ISO text
  of a reading of the clock made during the call, and every other field has the fresh value.
\<close>

theorem update_keeps_first_seen:
  assumes cmp: "compare_listings E new_listings existing_listings n =
             Inr ((added, updated, all_current), n')"
    and fresh: "last_with_id new_listings k = Some fresh"
    and stored: "last_with_id existing_listings k = Some stored"
    and upd: "is_listing_updated fresh stored"
  shows "\<exists>r j fs. n \<le> j \<and> j < n' \<and> r \<in> set updated \<and> r \<in> set all_current \<and>
           id_of r = Some k \<and> map_of stored ''first_seen'' = Some fs \<and>
           map_of r ''first_seen'' = Some fs \<and>
           map_of r ''last_updated'' = Some (PStr (isoformat E (clock E j))) \<and>
           (\<forall>f. f \<noteq> ''first_seen'' \<and> f \<noteq> ''last_updated'' \<longrightarrow> map_of r f = map_of fresh f)"
proof -
  from cmp obtain ex d0 d' ps n1 where
    ex: "by_id existing_listings [] = Inr ex" and d0: "by_id new_listings [] = Inr d0" and
    cl: "classify E ex d0 (d0, [], [], n) = Inr (d', added, updated, n1)" and
    ps: "preserved_listings E d' ex n1 = Inr (ps, n')" and
    ac: "all_current = map snd d' @ ps"
    by (rule compare_listings_parts)
  have dd0: "distinct (map fst d0)" using by_id_distinct[OF d0] by simp
  have m0: "map_of d0 k = Some fresh" using by_id_index[OF d0] fresh by simp
  then have item: "(k, fresh) \<in> set d0" by (rule map_of_SomeD)
  have mex: "map_of ex k = Some stored" using by_id_index[OF ex] stored by simp
  from classify_item_result[OF cl dd0 item] mex upd obtain fs j where
    r: "map_of stored ''first_seen'' = Some fs" "n \<le> j" "j < n1"
       "map_of d' k = Some (stamped E j fs fresh)" "stamped E j fs fresh \<in> set updated"
    by blast
  have "n1 \<le> n'" by (rule preserved_mono[OF ps])
  moreover have "stamped E j fs fresh \<in> set all_current"
    unfolding ac using map_of_mem_snd[OF r(4)] by simp
  moreover have "id_of (stamped E j fs fresh) = Some k"
    using last_with_id_mem[OF fresh] by simp
  ultimately show ?thesis using r
    by (intro exI[of _ "stamped E j fs fresh"] exI[of _ j] exI[of _ fs])
       (simp add: stamped_fields)
qed

theorem update_keeps_first_seen_witness:
  "compare_listings E0 new0 stored0 0 =
     Inr (([flat ''a'' 1200 ''2024-03-01T00:00:00''], [flat_b_updated],
           [flat ''a'' 1200 ''2024-03-01T00:00:00'', flat_b_updated,
            flat ''c'' 900 ''2024-02-20T00:00:00'']), 5) \<and>
   last_with_id new0 (PStr ''b'') = Some (flat ''b'' 1300 ''2024-03-01T00:00:00'') \<and>
   last_with_id stored0 (PStr ''b'') = Some (flat ''b'' 1250 ''2024-02-20T00:00:00'') \<and>
   is_listing_updated (flat ''b'' 1300 ''2024-03-01T00:00:00'')
     (flat ''b'' 1250 ''2024-02-20T00:00:00'') \<and>
   (\<exists>r j fs. 0 \<le> j \<and> j < 5 \<and> r \<in> set [flat_b_updated] \<and>
      r \<in> set [flat ''a'' 1200 ''2024-03-01T00:00:00'', flat_b_updated,
                flat ''c'' 900 ''2024-02-20T00:00:00''] \<and>
      id_of r = Some (PStr ''b'') \<and>
      map_of (flat ''b'' 1250 ''2024-02-20T00:00:00'') ''first_seen'' = Some fs \<and>
      map_of r ''first_seen'' = Some fs \<and>
      map_of r ''last_updated'' = Some (PStr (isoformat E0 (clock E0 j))) \<and>
      (\<forall>f. f \<noteq> ''first_seen'' \<and> f \<noteq> ''last_updated'' \<longrightarrow>
           map_of r f = map_of (flat ''b'' 1300 ''2024-03-01T00:00:00'') f))"
proof -
  have run: "compare_listings E0 new0 stored0 0 =
     Inr (([flat ''a'' 1200 ''2024-03-01T00:00:00''], [flat_b_updated],
           [flat ''a'' 1200 ''2024-03-01T00:00:00'', flat_b_updated,
            flat ''c'' 900 ''2024-02-20T00:00:00'']), 5)"
    by (simp add: eval_simps)
  have fresh: "last_with_id new0 (PStr ''b'') = Some (flat ''b'' 1300 ''2024-03-01T00:00:00'')"
    by (simp add: new0_def flat_def id_of_def)
  have stored:
    "last_with_id stored0 (PStr ''b'') = Some (flat ''b'' 1250 ''2024-02-20T00:00:00'')"
    by (simp add: stored0_def flat_def id_of_def)
  have upd: "is_listing_updated (flat ''b'' 1300 ''2024-03-01T00:00:00'')
     (flat ''b'' 1250 ''2024-02-20T00:00:00'')"
    by (simp add: is_listing_updated_def py_get_def flat_def)
  from run fresh stored upd update_keeps_first_seen[OF run fresh stored upd]
  show ?thesis by (intro conjI)
qed

text \<open>
  Claim C10.  \<^verbatim>\<open>compare_listings\<close> is not total: a fresh and a stored listing with the same
  id, a different price and no \<^verbatim>\<open>first_seen\<close> in the stored one make it raise
  \<^verbatim>\<open>KeyError('first_seen')\<close>, whereas \<^verbatim>\<open>_is_listing_too_old\<close> treats the same stored listing
  as if its \<^verbatim>\<open>first_seen\<close> were the reading of the clock.
\<close>

theorem compare_listings_raises_without_first_seen:
  assumes "id_of fresh = Some k" and "id_of stored = Some k"
    and "map_of stored ''first_seen'' = None"
    and "py_get fresh ''price'' \<noteq> py_get stored ''price''"
  shows "compare_listings E [fresh] [stored] n = Inl (KeyError ''first_seen'') \<and>
         is_listing_too_old E stored n =
         is_listing_too_old E
           (AList.update ''first_seen'' (PStr (isoformat E (clock E n))) stored) n"
proof -
  have "is_listing_updated fresh stored" using assms(4) by (simp add: is_listing_updated_def)
  with assms(1-3) have "compare_listings E [fresh] [stored] n = Inl (KeyError ''first_seen'')"
    by (simp add: compare_listings_def getitem_def classify_item_def id_of_def)
  moreover have "first_seen_of E stored = FS_missing"
    using assms(3) by (simp add: first_seen_of_def)
  ultimately show ?thesis using too_old_missing by blast
qed

theorem compare_listings_raises_without_first_seen_witness:
  "id_of (flat ''b'' 1300 ''2024-03-01T00:00:00'') = Some (PStr ''b'') \<and>
   id_of (undated (flat ''b'' 1250 ''2024-02-20T00:00:00'')) = Some (PStr ''b'') \<and>
   map_of (undated (flat ''b'' 1250 ''2024-02-20T00:00:00'')) ''first_seen'' = None \<and>
   py_get (flat ''b'' 1300 ''2024-03-01T00:00:00'') ''price'' \<noteq>
     py_get (undated (flat ''b'' 1250 ''2024-02-20T00:00:00'')) ''price'' \<and>
   compare_listings E0 [flat ''b'' 1300 ''2024-03-01T00:00:00'']
     [undated (flat ''b'' 1250 ''2024-02-20T00:00:00'')] 0 = Inl (KeyError ''first_seen'') \<and>
   is_listing_too_old E0 (undated (flat ''b'' 1250 ''2024-02-20T00:00:00'')) 0 =
     is_listing_too_old E0
       (AList.update ''first_seen'' (PStr (isoformat E0 (clock E0 0)))
          (undated (flat ''b'' 1250 ''2024-02-20T00:00:00''))) 0"
proof -
  have a: "id_of (flat ''b'' 1300 ''2024-03-01T00:00:00'') = Some (PStr ''b'')"
    by (simp add: flat_def id_of_def)
  have b: "id_of (undated (flat ''b'' 1250 ''2024-02-20T00:00:00'')) = Some (PStr ''b'')"
    by (simp add: flat_def id_of_def undated_def)
  have c: "map_of (undated (flat ''b'' 1250 ''2024-02-20T00:00:00'')) ''first_seen'' = None"
    by (simp add: flat_def undated_def)
  have d: "py_get (flat ''b'' 1300 ''2024-03-01T00:00:00'') ''price'' \<noteq>
     py_get (undated (flat ''b'' 1250 ''2024-02-20T00:00:00'')) ''price''"
    by (simp add: flat_def undated_def py_get_def)
  from a b c d compare_listings_raises_without_first_seen[OF a b c d, of E0 0]
  show ?thesis by (intro conjI) simp_all
qed

section \<open>Eviction, and the pipeline around the reconciler\<close>

lemmas run_simps = eval_simps main_def finish_def clean_old_listings_def load_listings_def
  save_listings_def E1_def flat_d_updated_def

lemma main_in_memory:
  "in_memory (main E c f wc s ws b n) = Some r \<longleftrightarrow>
   (c \<and> (\<exists>rc f1 n1 existing new ticks n2.
      clean_old_listings E wc f (n + 1) = Inr (rc, f1, n1) \<and>
      load_listings f1 = Inr existing \<and> s = Inr (new, ticks) \<and>
      compare_listings E new existing (n1 + ticks) = Inr (r, n2)))"
  by (auto simp: main_def finish_def Let_def split: sum.splits prod.splits)

lemma not_too_old_Cons:
  "not_too_old E (l # ls) n = Inr (ks, n') \<longleftrightarrow>
   (\<exists>old m rest. is_listing_too_old E l n = Inr (old, m) \<and>
      not_too_old E ls m = Inr (rest, n') \<and> ks = (if old then rest else l # rest))"
  by (auto split: sum.splits)

lemma not_too_old_mono: "not_too_old E ls n = Inr (ks, n') \<Longrightarrow> n \<le> n'"
proof (induction ls arbitrary: ks n)
  case Nil
  then show ?case by simp
next
  case (Cons l ls)
  from Cons.prems obtain old m rest where o: "is_listing_too_old E l n = Inr (old, m)"
    and r: "not_too_old E ls m = Inr (rest, n')"
    unfolding not_too_old_Cons by blast
  from Cons.IH[OF r] is_listing_too_old_ticks[OF o] show ?case by simp
qed

lemma not_too_old_sub:
  "not_too_old E ls n = Inr (ks, n') \<Longrightarrow> l \<in> set ks \<Longrightarrow>
   l \<in> set ls \<and> (\<exists>j m. n \<le> j \<and> m \<le> n' \<and> is_listing_too_old E l j = Inr (False, m))"
proof (induction ls arbitrary: ks n)
  case Nil
  then show ?case by simp
next
  case (Cons l1 ls)
  from Cons.prems obtain old m rest where o: "is_listing_too_old E l1 n = Inr (old, m)"
    and r: "not_too_old E ls m = Inr (rest, n')"
    and ks: "ks = (if old then rest else l1 # rest)"
    unfolding not_too_old_Cons by blast
  show ?case
  proof (cases "l \<in> set rest")
    case True
    from Cons.IH[OF r True] obtain j m' where
      "l \<in> set ls" "m \<le> j" "m' \<le> n'" "is_listing_too_old E l j = Inr (False, m')" by blast
    moreover have "n \<le> j" using \<open>m \<le> j\<close> is_listing_too_old_ticks[OF o] by simp
    ultimately show ?thesis by auto
  next
    case False
    with ks Cons.prems(2) have "l = l1" "\<not> old" by (auto split: if_splits)
    with o not_too_old_mono[OF r] show ?thesis by auto
  qed
qed

lemma not_too_old_length:
  "not_too_old E ls n = Inr (ks, n') \<Longrightarrow>
   length ks \<le> length ls \<and> (length ks = length ls \<longrightarrow> ks = ls)"
proof (induction ls arbitrary: ks n)
  case Nil
  then show ?case by simp
next
  case (Cons l ls)
  from Cons.prems obtain old m rest where
    r: "not_too_old E ls m = Inr (rest, n')"
    and ks: "ks = (if old then rest else l # rest)"
    unfolding not_too_old_Cons by blast
  from Cons.IH[OF r] show ?case unfolding ks by auto
qed

lemma clean_old_listings_written:
  assumes "clean_old_listings E Written f n = Inr (rc, f1, n1)"
  obtains ls ks where "load_listings f = Inr ls" "not_too_old E ls n = Inr (ks, n1)"
    "load_listings f1 = Inr ks" "rc = length ls - length ks"
proof -
  from assms obtain ls ks where ls: "load_listings f = Inr ls"
    and ks: "not_too_old E ls n = Inr (ks, n1)"
    and rc: "rc = length ls - length ks"
    and f1: "f1 = (if rc > 0 then Content ks else f)"
    by (auto simp: clean_old_listings_def Let_def save_listings_def
        split: sum.splits prod.splits if_splits)
  have l1: "load_listings f1 = Inr ks"
  proof (cases "rc > 0")
    case True
    with f1 show ?thesis by (simp add: load_listings_def)
  next
    case False
    with rc not_too_old_length[OF ks] have "ks = ls" by simp
    with False f1 ls show ?thesis by simp
  qed
  from that[OF ls ks l1 rc] show ?thesis .
qed

lemma clean_old_listings_drops:
  assumes clean: "clean_old_listings E Written f n = Inr (rc, f1, n1)"
    and ls: "load_listings f = Inr ls" and stored: "stored \<in> set ls"
    and fs: "first_seen_of E stored = FS_at t"
    and old: "\<forall>j. n \<le> j \<longrightarrow> clock E (j + 1) - t > max_age_days E * day"
  shows "\<exists>ks. load_listings f1 = Inr ks \<and> stored \<notin> set ks \<and> set ks \<subseteq> set ls \<and> 0 < rc"
proof -
  from clean obtain ls' ks where ls': "load_listings f = Inr ls'"
    and ks: "not_too_old E ls' n = Inr (ks, n1)"
    and f1: "load_listings f1 = Inr ks" and rc: "rc = length ls' - length ks"
    by (rule clean_old_listings_written)
  from ls ls' have eq: "ls' = ls" by simp
  have nin: "stored \<notin> set ks"
  proof
    assume "stored \<in> set ks"
    from not_too_old_sub[OF ks this] obtain j m where
      j: "n \<le> j" "is_listing_too_old E stored j = Inr (False, m)" by blast
    from too_old_at[OF fs j(2)] old j(1) show False by simp
  qed
  have sub: "set ks \<subseteq> set ls" using not_too_old_sub[OF ks] eq by blast
  from nin stored eq have "ks \<noteq> ls'" by blast
  with not_too_old_length[OF ks] rc have "0 < rc" by auto
  with f1 nin sub show ?thesis by blast
qed

lemma fresh_added:
  assumes cmp: "compare_listings E new_listings existing_listings n =
             Inr ((added, updated, all_current), n')"
    and fresh: "last_with_id new_listings k = Some fresh"
    and absent: "last_with_id existing_listings k = None"
  shows "fresh \<in> set added" and "\<forall>r \<in> set all_current. id_of r = Some k \<longrightarrow> r = fresh"
proof -
  from cmp obtain ex d0 d' ps n1 where
    ex: "by_id existing_listings [] = Inr ex" and d0: "by_id new_listings [] = Inr d0" and
    cl: "classify E ex d0 (d0, [], [], n) = Inr (d', added, updated, n1)" and
    ps: "preserved_listings E d' ex n1 = Inr (ps, n')" and
    ac: "all_current = map snd d' @ ps"
    by (rule compare_listings_parts)
  have kex: "keyed ex" and dex: "distinct (map fst ex)"
    using by_id_keyed[OF ex] by_id_distinct[OF ex] by (simp_all add: keyed_def)
  have kd0: "keyed d0" using by_id_keyed[OF d0] by (simp add: keyed_def)
  have dd0: "distinct (map fst d0)" using by_id_distinct[OF d0] by simp
  have kd': "keyed d'" by (rule classify_keyed[OF cl kex kd0 kd0])
  have keys: "map fst d' = map fst d0" by (rule classify_keys[OF cl]) simp
  have dd': "distinct (map fst d')" unfolding keys by (rule dd0)
  have m0: "map_of d0 k = Some fresh" using by_id_index[OF d0] fresh by simp
  then have item: "(k, fresh) \<in> set d0" by (rule map_of_SomeD)
  have mex: "map_of ex k = None" using by_id_index[OF ex] absent by simp
  from classify_item_result[OF cl dd0 item] mex m0
  have md': "map_of d' k = Some fresh" and a: "fresh \<in> set added" by simp_all
  from a show "fresh \<in> set added" .
  show "\<forall>r \<in> set all_current. id_of r = Some k \<longrightarrow> r = fresh"
  proof (intro ballI impI)
    fix r assume r: "r \<in> set all_current" and idr: "id_of r = Some k"
    from r consider "r \<in> snd ` set d'" | "r \<in> set ps" unfolding ac by auto
    then show "r = fresh"
    proof cases
      case 1
      then obtain k' where k': "(k', r) \<in> set d'" by force
      with kd' idr have "k' = k" by (auto simp: keyed_def)
      with k' dd' have "map_of d' k = Some r" by simp
      with md' show ?thesis by simp
    next
      case 2
      from preserved_ids[OF ps kex dex] 2 obtain k' where
        "id_of r = Some k'" "map_of d' k' = None" by blast
      with idr md' show ?thesis by simp
    qed
  qed
qed

text \<open>
  Claim C4, as stated: a stored listing that is not seen again and is older than the maximum
  age is left out of \<^verbatim>\<open>allCurrent\<close> and counted toward an eviction count.
  \<^verbatim>\<open>compare_listings\<close> keeps no such count: a call that evicts one listing and a call on an
  empty store return the same triple.
\<close>

theorem compare_listings_no_eviction_count:
  "compare_listings E0 [] [flat ''d'' 950 ''2024-01-01T00:00:00''] 0 = Inr (([], [], []), 2) \<and>
   compare_listings E0 [] [] 0 = Inr (([], [], []), 0)"
  by (simp add: eval_simps)

text \<open>
  Claim C4, amended.  Let \<open>stored\<close> be the stored listing filed under the id \<open>k\<close>, and let no
  fresh listing have that id.  When \<^verbatim>\<open>compare_listings\<close> returns, \<open>stored\<close> is in
  \<^verbatim>\<open>allCurrent\<close> as it was stored if its \<^verbatim>\<open>first_seen\<close> is an instant \<open>t\<close> and no reading of
  the clock during the call exceeds \<open>t\<close> by more than the maximum age; or if its
  \<^verbatim>\<open>first_seen\<close> cannot be parsed; or if it has none, the library reads back the ISO text of
  each reading, and two successive readings are no further apart than the maximum age.
  If its \<^verbatim>\<open>first_seen\<close> is an instant \<open>t\<close> and every reading during the call exceeds \<open>t\<close> by
  more than the maximum age, \<^verbatim>\<open>allCurrent\<close> has no listing with the id \<open>k\<close>.
\<close>

theorem not_reseen_kept_or_evicted:
  assumes cmp: "compare_listings E new_listings existing_listings n =
             Inr ((added, updated, all_current), n')"
    and stored: "last_with_id existing_listings k = Some stored"
    and absent: "last_with_id new_listings k = None"
  shows "(\<forall>t. first_seen_of E stored = FS_at t \<and>
              (\<forall>j. n \<le> j \<and> j < n' \<longrightarrow> clock E j - t \<le> max_age_days E * day) \<longrightarrow>
              stored \<in> set all_current) \<and>
         (first_seen_of E stored = FS_unparseable \<longrightarrow> stored \<in> set all_current) \<and>
         (first_seen_of E stored = FS_missing \<and>
              (\<forall>j. n \<le> j \<and> j < n' \<longrightarrow>
                   fromisoformat E (isoformat E (clock E j)) = Naive (clock E j)) \<and>
              (\<forall>j. n \<le> j \<and> j + 1 < n' \<longrightarrow>
                   clock E (j + 1) - clock E j \<le> max_age_days E * day) \<longrightarrow>
              stored \<in> set all_current) \<and>
         (\<forall>t. first_seen_of E stored = FS_at t \<and>
              (\<forall>j. n \<le> j \<and> j < n' \<longrightarrow> clock E j - t > max_age_days E * day) \<longrightarrow>
              (\<forall>r \<in> set all_current. id_of r \<noteq> Some k))"
proof -
  from not_reseen_record(1)[OF cmp stored absent] obtain j b m where
    j: "n \<le> j" "m \<le> n'" "is_listing_too_old E stored j = Inr (b, m)"
       "\<not> b \<longrightarrow> stored \<in> set all_current"
    by blast
  have young: "stored \<in> set all_current"
    if a: "first_seen_of E stored = FS_at t"
      "\<forall>j. n \<le> j \<and> j < n' \<longrightarrow> clock E j - t \<le> max_age_days E * day" for t
  proof -
    from too_old_at[OF a(1) j(3)]
    have m: "m = j + 2" and b: "b = (clock E (j + 1) - t > max_age_days E * day)" by auto
    from m j(1,2) have "n \<le> j + 1" "j + 1 < n'" by simp_all
    with a(2) have "clock E (j + 1) - t \<le> max_age_days E * day" by blast
    with b j(4) show ?thesis by simp
  qed
  have unparseable: "stored \<in> set all_current" if "first_seen_of E stored = FS_unparseable"
    using too_old_unparseable[OF that j(3)] j(4) by simp
  have missing: "stored \<in> set all_current"
    if a: "first_seen_of E stored = FS_missing"
      "\<forall>j. n \<le> j \<and> j < n' \<longrightarrow> fromisoformat E (isoformat E (clock E j)) = Naive (clock E j)"
      "\<forall>j. n \<le> j \<and> j + 1 < n' \<longrightarrow> clock E (j + 1) - clock E j \<le> max_age_days E * day"
  proof -
    have "j < m" by (rule is_listing_too_old_ticks[OF j(3)])
    with j(1,2) a(2) have rt: "fromisoformat E (isoformat E (clock E j)) = Naive (clock E j)"
      by simp
    from too_old_missing_now[OF a(1) rt j(3)]
    have m: "m = j + 2" and b: "b = (clock E (j + 1) - clock E j > max_age_days E * day)"
      by auto
    from m j(1,2) have "n \<le> j" "j + 1 < n'" by simp_all
    with a(3) have "clock E (j + 1) - clock E j \<le> max_age_days E * day" by blast
    with b j(4) show ?thesis by simp
  qed
  have old: "\<forall>r \<in> set all_current. id_of r \<noteq> Some k"
    if a: "first_seen_of E stored = FS_at t"
      "\<forall>j. n \<le> j \<and> j < n' \<longrightarrow> clock E j - t > max_age_days E * day" for t
  proof -
    have "\<forall>j b m. n \<le> j \<and> m \<le> n' \<and> is_listing_too_old E stored j = Inr (b, m) \<longrightarrow> b"
    proof (intro allI impI)
      fix j b m
      assume h: "n \<le> j \<and> m \<le> n' \<and> is_listing_too_old E stored j = Inr (b, m)"
      from too_old_at[OF a(1), of j b m] h
      have m: "m = j + 2" and b: "b = (clock E (j + 1) - t > max_age_days E * day)" by auto
      from m h have "n \<le> j + 1" "j + 1 < n'" by simp_all
      with a(2) have "clock E (j + 1) - t > max_age_days E * day" by blast
      with b show b by simp
    qed
    from not_reseen_record(2)[OF cmp stored absent this] show ?thesis .
  qed
  from young unparseable missing old show ?thesis by blast
qed

theorem not_reseen_kept_or_evicted_witness:
  "compare_listings E0 [] stored1 0 =
     Inr (([], [], [flat ''c'' 900 ''2024-02-20T00:00:00'', flat ''e'' 800 ''yesterday'',
                    undated (flat ''g'' 700 ''2024-02-20T00:00:00'')]), 7) \<and>
   flat ''c'' 900 ''2024-02-20T00:00:00'' \<in>
     set [flat ''c'' 900 ''2024-02-20T00:00:00'', flat ''e'' 800 ''yesterday'',
          undated (flat ''g'' 700 ''2024-02-20T00:00:00'')] \<and>
   flat ''e'' 800 ''yesterday'' \<in>
     set [flat ''c'' 900 ''2024-02-20T00:00:00'', flat ''e'' 800 ''yesterday'',
          undated (flat ''g'' 700 ''2024-02-20T00:00:00'')] \<and>
   undated (flat ''g'' 700 ''2024-02-20T00:00:00'') \<in>
     set [flat ''c'' 900 ''2024-02-20T00:00:00'', flat ''e'' 800 ''yesterday'',
          undated (flat ''g'' 700 ''2024-02-20T00:00:00'')] \<and>
   Some (PStr ''d'') \<notin>
     id_of ` set [flat ''c'' 900 ''2024-02-20T00:00:00'', flat ''e'' 800 ''yesterday'',
                  undated (flat ''g'' 700 ''2024-02-20T00:00:00'')]"
proof -
  let ?c = "flat ''c'' 900 ''2024-02-20T00:00:00''"
  let ?d = "flat ''d'' 950 ''2024-01-01T00:00:00''"
  let ?e = "flat ''e'' 800 ''yesterday''"
  let ?g = "undated (flat ''g'' 700 ''2024-02-20T00:00:00'')"
  have run: "compare_listings E0 [] stored1 0 = Inr (([], [], [?c, ?e, ?g]), 7)"
    by (simp add: eval_simps)
  have none: "last_with_id [] k = None" for k by simp
  have c: "last_with_id stored1 (PStr ''c'') = Some ?c"
    and d: "last_with_id stored1 (PStr ''d'') = Some ?d"
    and e: "last_with_id stored1 (PStr ''e'') = Some ?e"
    and g: "last_with_id stored1 (PStr ''g'') = Some ?g"
    by (simp_all add: stored1_def flat_def undated_def id_of_def)
  have fc: "first_seen_of E0 ?c = FS_at (50 * day)"
    and fd: "first_seen_of E0 ?d = FS_at 0"
    and fe: "first_seen_of E0 ?e = FS_unparseable"
    and fg: "first_seen_of E0 ?g = FS_missing"
    by (simp_all add: eval_simps)
  have clk: "\<forall>j. 0 \<le> j \<and> j < 7 \<longrightarrow> clock E0 j - 50 * day \<le> max_age_days E0 * day"
    and old: "\<forall>j. 0 \<le> j \<and> j < 7 \<longrightarrow> clock E0 j - 0 > max_age_days E0 * day"
    and rt: "\<forall>j. 0 \<le> j \<and> j < 7 \<longrightarrow>
               fromisoformat E0 (isoformat E0 (clock E0 j)) = Naive (clock E0 j)"
    and step: "\<forall>j. 0 \<le> j \<and> j + 1 < 7 \<longrightarrow>
               clock E0 (j + 1) - clock E0 j \<le> max_age_days E0 * day"
    by (simp_all add: E0_def fromisoformat0_def isoformat0_def day_def)
  from not_reseen_kept_or_evicted[OF run c none] fc clk
  have 1: "?c \<in> set [?c, ?e, ?g]" by blast
  from not_reseen_kept_or_evicted[OF run e none] fe
  have 2: "?e \<in> set [?c, ?e, ?g]" by blast
  from not_reseen_kept_or_evicted[OF run g none] fg rt step
  have 3: "?g \<in> set [?c, ?e, ?g]" by blast
  from not_reseen_kept_or_evicted[OF run d none] fd old
  have "\<forall>r \<in> set [?c, ?e, ?g]. id_of r \<noteq> Some (PStr ''d'')" by blast
  then have 4: "Some (PStr ''d'') \<notin> id_of ` set [?c, ?e, ?g]" by force
  from run 1 2 3 4 show ?thesis by (intro conjI)
qed

text \<open>
  Claim C5, as stated: across a run of \<^verbatim>\<open>main\<close>, a stored listing whose id is in the current
  crawl is never dropped by age and never loses its \<^verbatim>\<open>first_seen\<close>.  \<^verbatim>\<open>main\<close> calls
  \<^verbatim>\<open>clean_old_listings\<close> before the crawl, which drops every stored listing that is too
  old, seen again or not: the listing \<open>d\<close>, first seen sixty days ago and in the crawl,
  leaves the run as an added listing first seen today.  The run starts at the reading 0,
  which is \<^verbatim>\<open>start_time\<close>, so that \<^verbatim>\<open>clean_old_listings\<close> starts at the reading 1.
\<close>

theorem main_evicts_before_crawl:
  "main E0 True (Content [flat ''d'' 950 ''2024-01-01T00:00:00'']) Written
     (Inr ([flat ''d'' 950 ''2024-03-01T00:00:00''], 2)) Written True 0 =
   \<lparr>success = True, exit_code = 0,
    in_memory = Some ([flat ''d'' 950 ''2024-03-01T00:00:00''], [],
                      [flat ''d'' 950 ''2024-03-01T00:00:00'']),
    listings_file = Content [flat ''d'' 950 ''2024-03-01T00:00:00''],
    notification_sent = True\<rparr> \<and>
   clean_old_listings E0 Written (Content [flat ''d'' 950 ''2024-01-01T00:00:00'']) 1 =
     Inr (1, Content [], 3) \<and>
   id_of (flat ''d'' 950 ''2024-03-01T00:00:00'') = id_of (flat ''d'' 950 ''2024-01-01T00:00:00'') \<and>
   map_of (flat ''d'' 950 ''2024-03-01T00:00:00'') ''first_seen'' \<noteq>
     map_of (flat ''d'' 950 ''2024-01-01T00:00:00'') ''first_seen''"
  by (simp add: run_simps)

text \<open>
  Claim C5, amended.  Take a run of \<^verbatim>\<open>main\<close> that reaches the end of \<^verbatim>\<open>compare_listings\<close>.
  First, a listing filed under the id \<open>k\<close> in the listings file as \<^verbatim>\<open>clean_old_listings\<close> left
  it, whose id is in the crawl, is not dropped by age: \<^verbatim>\<open>allCurrent\<close> has a listing with the id
  \<open>k\<close> and the stored \<^verbatim>\<open>first_seen\<close>, whatever the age.  Second, when the write of
  \<^verbatim>\<open>clean_old_listings\<close> succeeds, every listing of the file whose \<^verbatim>\<open>first_seen\<close> is an
  instant that every reading of the clock after \<^verbatim>\<open>start_time\<close> exceeds by more than the
  maximum age is removed by \<^verbatim>\<open>clean_old_listings\<close>, whether its id is in the crawl or not: the
  count of removed listings is positive and the listing is not among those that \<^verbatim>\<open>main\<close>
  loads afterwards.  Third, when every listing of the file with the id \<open>k\<close> is removed in
  that way and the id is in the crawl, the fresh listing is in \<^verbatim>\<open>added\<close> and is the only
  listing of \<^verbatim>\<open>allCurrent\<close> with the id \<open>k\<close>.
\<close>

theorem reseen_evicted_only_by_clean:
  assumes run: "in_memory (main E True f w_clean (Inr (new_scraped_listings, ticks)) w_save
                  notify n) = Some (added, updated, all_current)"
  shows "(\<forall>k fresh stored removed_count f1 n1 existing.
            last_with_id new_scraped_listings k = Some fresh \<and>
            clean_old_listings E w_clean f (n + 1) = Inr (removed_count, f1, n1) \<and>
            load_listings f1 = Inr existing \<and> last_with_id existing k = Some stored \<longrightarrow>
            (\<exists>r. r \<in> set all_current \<and> id_of r = Some k \<and>
                 map_of r ''first_seen'' = map_of stored ''first_seen'')) \<and>
         (\<forall>listings stored t.
            w_clean = Written \<and> load_listings f = Inr listings \<and> stored \<in> set listings \<and>
            first_seen_of E stored = FS_at t \<and>
            (\<forall>j. n < j \<longrightarrow> clock E j - t > max_age_days E * day) \<longrightarrow>
            (\<exists>removed_count f1 n1 existing.
               clean_old_listings E w_clean f (n + 1) = Inr (removed_count, f1, n1) \<and>
               0 < removed_count \<and> load_listings f1 = Inr existing \<and> stored \<notin> set existing)) \<and>
         (\<forall>k fresh listings.
            last_with_id new_scraped_listings k = Some fresh \<and> w_clean = Written \<and>
            load_listings f = Inr listings \<and>
            (\<forall>l \<in> set listings. id_of l = Some k \<longrightarrow>
               (\<exists>t. first_seen_of E l = FS_at t \<and>
                    (\<forall>j. n < j \<longrightarrow> clock E j - t > max_age_days E * day))) \<longrightarrow>
            fresh \<in> set added \<and> (\<forall>r \<in> set all_current. id_of r = Some k \<longrightarrow> r = fresh))"
proof -
  from run obtain rc f1 n1 existing n2 where
    clean: "clean_old_listings E w_clean f (n + 1) = Inr (rc, f1, n1)" and
    load: "load_listings f1 = Inr existing" and
    cmp: "compare_listings E new_scraped_listings existing (n1 + ticks) =
            Inr ((added, updated, all_current), n2)"
    unfolding main_in_memory by auto
  have kept: "\<exists>r. r \<in> set all_current \<and> id_of r = Some k \<and>
                map_of r ''first_seen'' = map_of stored ''first_seen''"
    if "last_with_id new_scraped_listings k = Some fresh"
      "clean_old_listings E w_clean f (n + 1) = Inr (removed_count, f1', n1')"
      "load_listings f1' = Inr existing'" "last_with_id existing' k = Some stored"
    for k fresh stored removed_count f1' n1' existing'
  proof -
    from that(2,3) clean load have "existing' = existing" by simp
    with that(4) have "last_with_id existing k = Some stored" by simp
    from reseen_record[OF cmp that(1) this] show ?thesis .
  qed
  have dropped: "0 < rc \<and> stored \<notin> set existing \<and> set existing \<subseteq> set listings"
    if "w_clean = Written" "load_listings f = Inr listings" "stored \<in> set listings"
      "first_seen_of E stored = FS_at t"
      "\<forall>j. n < j \<longrightarrow> clock E j - t > max_age_days E * day"
    for listings stored t
  proof -
    from that(5) have "\<forall>j. n + 1 \<le> j \<longrightarrow> clock E (j + 1) - t > max_age_days E * day" by simp
    from clean_old_listings_drops[OF clean[unfolded that(1)] that(2,3,4) this] load
    show ?thesis by auto
  qed
  have added: "fresh \<in> set added \<and> (\<forall>r \<in> set all_current. id_of r = Some k \<longrightarrow> r = fresh)"
    if "last_with_id new_scraped_listings k = Some fresh" "w_clean = Written"
      "load_listings f = Inr listings"
      "\<forall>l \<in> set listings. id_of l = Some k \<longrightarrow>
         (\<exists>t. first_seen_of E l = FS_at t \<and>
              (\<forall>j. n < j \<longrightarrow> clock E j - t > max_age_days E * day))"
    for k fresh listings
  proof -
    have "Some k \<notin> id_of ` set existing"
    proof
      assume "Some k \<in> id_of ` set existing"
      then obtain l where l: "l \<in> set existing" "id_of l = Some k" by auto
      from clean[unfolded that(2)] obtain ls ks where
        "load_listings f = Inr ls" "not_too_old E ls (n + 1) = Inr (ks, n1)"
        "load_listings f1 = Inr ks"
        by (rule clean_old_listings_written)
      with that(3) load have "not_too_old E listings (n + 1) = Inr (existing, n1)" by simp
      from not_too_old_sub[OF this l(1)] have mem: "l \<in> set listings" by simp
      with that(4) l(2) obtain t where "first_seen_of E l = FS_at t"
        "\<forall>j. n < j \<longrightarrow> clock E j - t > max_age_days E * day" by blast
      from dropped[OF that(2,3) mem this] l(1) show False by simp
    qed
    then have "last_with_id existing k = None" by (simp add: last_with_id_None)
    from fresh_added[OF cmp that(1) this] show ?thesis by simp
  qed
  have evicted: "\<exists>removed_count f1 n1 existing.
       clean_old_listings E w_clean f (n + 1) = Inr (removed_count, f1, n1) \<and>
       0 < removed_count \<and> load_listings f1 = Inr existing \<and> stored \<notin> set existing"
    if "w_clean = Written" "load_listings f = Inr listings" "stored \<in> set listings"
      "first_seen_of E stored = FS_at t"
      "\<forall>j. n < j \<longrightarrow> clock E j - t > max_age_days E * day"
    for listings stored t
    using dropped[OF that] clean load by blast
  from kept evicted added show ?thesis by blast
qed

theorem reseen_evicted_only_by_clean_witness:
  "in_memory (main E1 True (Content [flat ''d'' 950 ''2024-01-01T00:00:00'']) Written
     (Inr ([flat ''d'' 975 ''2024-03-01T00:00:00''], 2)) Written True 0) =
     Some ([], [flat_d_updated], [flat_d_updated]) \<and>
   last_with_id [flat ''d'' 975 ''2024-03-01T00:00:00''] (PStr ''d'') =
     Some (flat ''d'' 975 ''2024-03-01T00:00:00'') \<and>
   clean_old_listings E1 Written (Content [flat ''d'' 950 ''2024-01-01T00:00:00'']) 1 =
     Inr (0, Content [flat ''d'' 950 ''2024-01-01T00:00:00''], 3) \<and>
   load_listings (Content [flat ''d'' 950 ''2024-01-01T00:00:00'']) =
     Inr [flat ''d'' 950 ''2024-01-01T00:00:00''] \<and>
   last_with_id [flat ''d'' 950 ''2024-01-01T00:00:00''] (PStr ''d'') =
     Some (flat ''d'' 950 ''2024-01-01T00:00:00'') \<and>
   (\<exists>r. r \<in> set [flat_d_updated] \<and> id_of r = Some (PStr ''d'') \<and>
        map_of r ''first_seen'' = map_of (flat ''d'' 950 ''2024-01-01T00:00:00'') ''first_seen'') \<and>
   in_memory (main E0 True
       (Content [flat ''c'' 900 ''2024-02-20T00:00:00'', flat ''d'' 950 ''2024-01-01T00:00:00''])
       Written (Inr ([flat ''d'' 950 ''2024-03-01T00:00:00''], 2)) Written True 0) =
     Some ([flat ''d'' 950 ''2024-03-01T00:00:00''], [],
           [flat ''d'' 950 ''2024-03-01T00:00:00'', flat ''c'' 900 ''2024-02-20T00:00:00'']) \<and>
   first_seen_of E0 (flat ''d'' 950 ''2024-01-01T00:00:00'') = FS_at 0 \<and>
   (\<exists>removed_count f1 n1 existing.
      clean_old_listings E0 Written
        (Content [flat ''c'' 900 ''2024-02-20T00:00:00'', flat ''d'' 950 ''2024-01-01T00:00:00''])
        1 = Inr (removed_count, f1, n1) \<and>
      0 < removed_count \<and> load_listings f1 = Inr existing \<and>
      flat ''d'' 950 ''2024-01-01T00:00:00'' \<notin> set existing) \<and>
   flat ''d'' 950 ''2024-03-01T00:00:00'' \<in> set [flat ''d'' 950 ''2024-03-01T00:00:00''] \<and>
   {r \<in> set [flat ''d'' 950 ''2024-03-01T00:00:00'', flat ''c'' 900 ''2024-02-20T00:00:00''].
      id_of r = Some (PStr ''d'')} = {flat ''d'' 950 ''2024-03-01T00:00:00''}"
proof -
  let ?c = "flat ''c'' 900 ''2024-02-20T00:00:00''"
  let ?d = "flat ''d'' 950 ''2024-01-01T00:00:00''"
  let ?d1 = "flat ''d'' 950 ''2024-03-01T00:00:00''"
  let ?d2 = "flat ''d'' 975 ''2024-03-01T00:00:00''"
  have run1: "in_memory (main E1 True (Content [?d]) Written (Inr ([?d2], 2)) Written True 0) =
     Some ([], [flat_d_updated], [flat_d_updated])"
    by (simp add: run_simps)
  have new1: "last_with_id [?d2] (PStr ''d'') = Some ?d2"
    by (simp add: flat_def id_of_def)
  have clean1: "clean_old_listings E1 Written (Content [?d]) (0 + 1) = Inr (0, Content [?d], 3)"
    by (simp add: run_simps)
  have load1: "load_listings (Content [?d]) = Inr [?d]"
    by (simp add: load_listings_def)
  have old1: "last_with_id [?d] (PStr ''d'') = Some ?d"
    by (simp add: flat_def id_of_def)
  from reseen_evicted_only_by_clean[OF run1] new1 clean1 load1 old1
  have kept: "\<exists>r. r \<in> set [flat_d_updated] \<and> id_of r = Some (PStr ''d'') \<and>
        map_of r ''first_seen'' = map_of ?d ''first_seen''"
    by blast
  have run2: "in_memory (main E0 True (Content [?c, ?d]) Written (Inr ([?d1], 2)) Written True 0) =
     Some ([?d1], [], [?d1, ?c])"
    by (simp add: run_simps)
  have new2: "last_with_id [?d1] (PStr ''d'') = Some ?d1"
    by (simp add: flat_def id_of_def)
  have load2: "load_listings (Content [?c, ?d]) = Inr [?c, ?d]"
    by (simp add: load_listings_def)
  have mem2: "?d \<in> set [?c, ?d]" by simp
  have fs2: "first_seen_of E0 ?d = FS_at 0"
    by (simp add: eval_simps first_seen_of_def)
  have clk2: "\<forall>j. 0 < j \<longrightarrow> clock E0 j - 0 > max_age_days E0 * day"
    by (simp add: E0_def day_def)
  have all2: "\<forall>l \<in> set [?c, ?d]. id_of l = Some (PStr ''d'') \<longrightarrow>
      (\<exists>t. first_seen_of E0 l = FS_at t \<and>
           (\<forall>j. 0 < j \<longrightarrow> clock E0 j - t > max_age_days E0 * day))"
    using fs2 clk2 by (simp add: flat_def id_of_def)
  note thm2 = reseen_evicted_only_by_clean[OF run2]
  from thm2 load2 mem2 fs2 clk2
  have evicted: "\<exists>removed_count f1 n1 existing.
      clean_old_listings E0 Written (Content [?c, ?d]) (0 + 1) = Inr (removed_count, f1, n1) \<and>
      0 < removed_count \<and> load_listings f1 = Inr existing \<and> ?d \<notin> set existing"
    by blast
  from thm2 new2 load2 all2
  have added: "?d1 \<in> set [?d1] \<and> (\<forall>r \<in> set [?d1, ?c]. id_of r = Some (PStr ''d'') \<longrightarrow> r = ?d1)"
    by blast
  then have only: "{r \<in> set [?d1, ?c]. id_of r = Some (PStr ''d'')} = {?d1}"
    by (auto simp: flat_def id_of_def)
  from run1 new1 clean1 load1 old1 kept run2 fs2 evicted added only show ?thesis
    by (intro conjI) simp_all
qed

text \<open>
  Claim C9, as stated: when the write of the merged listings at the end of the run fails,
  \<^verbatim>\<open>main\<close> returns a non-zero exit code.  \<^verbatim>\<open>main\<close> does not look at what \<^verbatim>\<open>save_listings\<close>
  returns: the run below fails to write and ends with \<^verbatim>\<open>stats['success']\<close> true and exit
  code 0.
\<close>

theorem main_exit_zero_on_failed_save:
  "fst (save_listings (Failed Unreadable)
          [flat ''a'' 1200 ''2024-03-01T00:00:00'', flat_b_updated,
           flat ''c'' 900 ''2024-02-20T00:00:00'']
          (Content [flat ''b'' 1250 ''2024-02-20T00:00:00'',
                    flat ''c'' 900 ''2024-02-20T00:00:00''])) = False \<and>
   main E0 True (Content stored0) Written (Inr (new0, 4)) (Failed Unreadable) True 0 =
   \<lparr>success = True, exit_code = 0,
    in_memory = Some ([flat ''a'' 1200 ''2024-03-01T00:00:00''], [flat_b_updated],
           [flat ''a'' 1200 ''2024-03-01T00:00:00'', flat_b_updated,
            flat ''c'' 900 ''2024-02-20T00:00:00'']),
    listings_file = Unreadable, notification_sent = True\<rparr>"
  by (simp add: run_simps)

text \<open>
  Claim C9, amended.  A failed write of the merged listings at the end of the run changes
  neither \<^verbatim>\<open>stats['success']\<close>, nor the exit code, nor the triple in memory: they are what
  they are when the write succeeds.  A run that got as far as the triple ends with exit
  code 0, and the listings file is what the failed write left.
\<close>

theorem failed_save_not_surfaced:
  "exit_code (main E c f wc s (Failed f') b n) = exit_code (main E c f wc s Written b n) \<and>
   success (main E c f wc s (Failed f') b n) = success (main E c f wc s Written b n) \<and>
   in_memory (main E c f wc s (Failed f') b n) = in_memory (main E c f wc s Written b n) \<and>
   (in_memory (main E c f wc s (Failed f') b n) \<noteq> None \<longrightarrow>
      exit_code (main E c f wc s (Failed f') b n) = 0 \<and>
      listings_file (main E c f wc s (Failed f') b n) = f')"
  by (auto simp: main_def finish_def Let_def save_listings_def split: sum.splits prod.splits)

theorem failed_save_not_surfaced_witness:
  "in_memory (main E0 True (Content stored0) Written (Inr (new0, 0)) (Failed Absent) False 0) =
     Some ([flat ''a'' 1200 ''2024-03-01T00:00:00''], [flat_b_updated],
           [flat ''a'' 1200 ''2024-03-01T00:00:00'', flat_b_updated,
            flat ''c'' 900 ''2024-02-20T00:00:00'']) \<and>
   exit_code (main E0 True (Content stored0) Written (Inr (new0, 0)) (Failed Absent) False 0) = 0 \<and>
   listings_file (main E0 True (Content stored0) Written (Inr (new0, 0)) (Failed Absent) False 0)
     = Absent"
proof -
  have m: "in_memory (main E0 True (Content stored0) Written (Inr (new0, 0)) (Failed Absent)
      False 0) =
     Some ([flat ''a'' 1200 ''2024-03-01T00:00:00''], [flat_b_updated],
           [flat ''a'' 1200 ''2024-03-01T00:00:00'', flat_b_updated,
            flat ''c'' 900 ''2024-02-20T00:00:00''])"
    by (simp add: run_simps)
  then have "in_memory (main E0 True (Content stored0) Written (Inr (new0, 0)) (Failed Absent)
      False 0) \<noteq> None" by simp
  with failed_save_not_surfaced[of E0 True "Content stored0" Written "Inr (new0, 0)" Absent
      False 0]
  have "exit_code (main E0 True (Content stored0) Written (Inr (new0, 0)) (Failed Absent)
      False 0) = 0 \<and>
    listings_file (main E0 True (Content stored0) Written (Inr (new0, 0)) (Failed Absent)
      False 0) = Absent"
    by blast
  with m show ?thesis by (rule conjI)
qed

section \<open>The search URL\<close>

lemma join_Cons: "ps \<noteq> [] \<Longrightarrow> join sep (x # ps) = x @ sep @ join sep ps"
  by (cases ps) simp_all

lemma join_snoc: "ps \<noteq> [] \<Longrightarrow> join sep (ps @ [x]) = join sep ps @ sep @ x"
  by (induction sep ps rule: join.induct) (simp_all add: join_Cons)

lemma str_int_0: "str_int 0 = ''0''"
  by (simp add: str_int_def digits.simps)

lemma price_params_amended:
  "(let min_price = (case mn of None \<Rightarrow> Some 0 | Some v \<Rightarrow> v);
        max_price = (case mx of None \<Rightarrow> None | Some v \<Rightarrow> v)
    in if min_price \<noteq> None \<and> max_price \<noteq> None
       then [fmt min_price @ ''-'' @ fmt max_price]
       else if truthy min_price then [fmt min_price @ ''+'']
       else if truthy max_price then [''0-'' @ fmt max_price]
       else []) =
   (case number mx of
      Some b \<Rightarrow>
        (case mn of
           Some (Some a) \<Rightarrow> [str_int a @ ''-'' @ str_int b]
         | None \<Rightarrow> [''0-'' @ str_int b]
         | Some None \<Rightarrow> if b \<noteq> 0 then [''0-'' @ str_int b] else [])
    | None \<Rightarrow>
        (case number mn of
           Some a \<Rightarrow> if a \<noteq> 0 then [str_int a @ ''+''] else []
         | None \<Rightarrow> []))"
  by (cases mn; cases mx)
     (auto simp: number_def truthy_def fmt_def str_int_0 split: option.splits)

lemma optional_segment:
  "(if truthy v then [fmt v @ suffix] else []) =
   (case v of Some i \<Rightarrow> if i \<noteq> 0 then [str_int i @ suffix] else [] | None \<Rightarrow> [])"
  by (simp add: truthy_def fmt_def split: option.splits)

lemma join_concat: "join sep (x # xs) = x @ concat (map ((@) sep) xs)"
  by (induction sep "x # xs" arbitrary: x xs rule: join.induct) simp_all

lemma assemble:
  "(let params = P;
        params = (if B then params @ [x] else params);
        params = (if S then params @ [y] else params);
        url = (if params \<noteq> [] then u @ ''/'' @ join ''/'' params else u);
        url = (if pg then url @ ''/page-'' @ z else url)
    in url) =
   join ''/'' (u # P @ (if B then [x] else []) @ (if S then [y] else []) @
                (if pg then [''page-'' @ z] else []))"
proof (cases P)
  case Nil
  then show ?thesis by (cases B; cases S; cases pg) (simp_all add: Let_def)
next
  case (Cons p P')
  then show ?thesis
    by (cases B; cases S; cases pg) (simp_all add: Let_def join_concat del: join.simps)
qed

lemma build_search_url_params:
  "build_search_url self city page =
     join ''/''
       ((BASE_URL @ ''/'' @ city) #
        (let min_price = (case map_of (price_range self) ''min'' of None \<Rightarrow> Some 0 | Some v \<Rightarrow> v);
             max_price = (case map_of (price_range self) ''max'' of None \<Rightarrow> None | Some v \<Rightarrow> v)
         in if min_price \<noteq> None \<and> max_price \<noteq> None
            then [fmt min_price @ ''-'' @ fmt max_price]
            else if truthy min_price then [fmt min_price @ ''+'']
            else if truthy max_price then [''0-'' @ fmt max_price]
            else []) @
        (if truthy (min_bedrooms self) then [fmt (min_bedrooms self) @ ''-bedrooms''] else []) @
        (if truthy (min_size self) then [fmt (min_size self) @ ''-m2''] else []) @
        (if page > 1 then [''page-'' @ str_int page] else []))"
proof -
  have "build_search_url self city page =
    (let params =
       (let min_price = (case map_of (price_range self) ''min'' of None \<Rightarrow> Some 0 | Some v \<Rightarrow> v);
            max_price = (case map_of (price_range self) ''max'' of None \<Rightarrow> None | Some v \<Rightarrow> v)
        in if min_price \<noteq> None \<and> max_price \<noteq> None
           then [fmt min_price @ ''-'' @ fmt max_price]
           else if truthy min_price then [fmt min_price @ ''+'']
           else if truthy max_price then [''0-'' @ fmt max_price]
           else []);
        params = (if truthy (min_bedrooms self)
                  then params @ [fmt (min_bedrooms self) @ ''-bedrooms''] else params);
        params = (if truthy (min_size self)
                  then params @ [fmt (min_size self) @ ''-m2''] else params);
        url = (if params \<noteq> [] then (BASE_URL @ ''/'' @ city) @ ''/'' @ join ''/'' params
               else BASE_URL @ ''/'' @ city);
        url = (if page > 1 then url @ ''/page-'' @ str_int page else url)
    in url)"
    unfolding build_search_url_def Let_def ..
  then show ?thesis unfolding assemble .
qed

section \<open>The retry loop\<close>

lemma attempts_made:
  "requests_made (snd (attempts self get url a r w)) \<le> requests_made w + r"
proof (induction r arbitrary: a w)
  case 0
  then show ?case by simp
next
  case (Suc r)
  show ?case
  proof (cases "get (requests_made w) url")
    case RequestException
    show ?thesis
    proof (cases "int a = max_retries self - 1 \<or> request_delay self * 2 < 0")
      case True
      with RequestException show ?thesis by (auto simp: sleep_def Let_def)
    next
      case False
      let ?w2 = "w\<lparr>requests_made := requests_made w + 1,
                    slept := slept w @ [request_delay self * 2]\<rparr>"
      from False RequestException
      have "attempts self get url a (Suc r) w = attempts self get url (a + 1) r ?w2"
        by (simp add: sleep_def Let_def)
      with Suc.IH[of "a + 1" ?w2] show ?thesis by simp
    qed
  next
    case (Parsed soup)
    then show ?thesis by (simp add: sleep_def Let_def)
  qed
qed

lemma attempts_all_fail:
  "\<forall>j < r. get (requests_made w + j) url = RequestException \<Longrightarrow>
   int a + int r = max_retries self \<Longrightarrow> 0 \<le> request_delay self \<Longrightarrow>
   attempts self get url a r w =
     (Inr None, w\<lparr>requests_made := requests_made w + r,
                   slept := slept w @ replicate (r - 1) (request_delay self * 2)\<rparr>)"
proof (induction r arbitrary: a w)
  case 0
  then show ?case by simp
next
  case (Suc r)
  from Suc.prems(1) have h: "get (requests_made w) url = RequestException" by force
  show ?case
  proof (cases r)
    case 0
    with Suc.prems(2) have "int a = max_retries self - 1" by simp
    with h 0 show ?thesis by (simp add: Let_def)
  next
    case (Suc r')
    with Suc.prems(2) have ne: "int a \<noteq> max_retries self - 1" by simp
    let ?w2 = "w\<lparr>requests_made := requests_made w + 1,
                  slept := slept w @ [request_delay self * 2]\<rparr>"
    have step: "attempts self get url a (Suc r) w = attempts self get url (a + 1) r ?w2"
      using h ne Suc.prems(3) by (simp add: sleep_def Let_def)
    have "\<forall>j < r. get (requests_made ?w2 + j) url = RequestException"
      using Suc.prems(1) by (auto simp: less_Suc_eq_0_disj)
    moreover have "int (a + 1) + int r = max_retries self" using Suc.prems(2) by simp
    ultimately have "attempts self get url (a + 1) r ?w2 =
      (Inr None, ?w2\<lparr>requests_made := requests_made ?w2 + r,
                     slept := slept ?w2 @ replicate (r - 1) (request_delay self * 2)\<rparr>)"
      using Suc.IH[of ?w2 "a + 1"] Suc.prems(3) by blast
    with step Suc show ?thesis by (simp add: replicate_app_Cons_same)
  qed
qed

lemma attempts_success:
  "k < r \<Longrightarrow> \<forall>j < k. get (requests_made w + j) url = RequestException \<Longrightarrow>
   get (requests_made w + k) url = Parsed soup \<Longrightarrow>
   int a + int r = max_retries self \<Longrightarrow> 0 \<le> request_delay self \<Longrightarrow>
   attempts self get url a r w =
     (Inr (Some soup), w\<lparr>requests_made := requests_made w + k + 1,
                  slept := slept w @ replicate k (request_delay self * 2) @ [request_delay self]\<rparr>)"
proof (induction r arbitrary: a w k)
  case 0
  then show ?case by simp
next
  case (Suc r)
  show ?case
  proof (cases k)
    case 0
    with Suc.prems(3,5) show ?thesis by (simp add: sleep_def Let_def)
  next
    case (Suc k')
    with Suc.prems(2) have h: "get (requests_made w) url = RequestException" by force
    from Suc Suc.prems(1,4) have ne: "int a \<noteq> max_retries self - 1" by simp
    let ?w2 = "w\<lparr>requests_made := requests_made w + 1,
                  slept := slept w @ [request_delay self * 2]\<rparr>"
    have step: "attempts self get url a (Suc r) w = attempts self get url (a + 1) r ?w2"
      using h ne Suc.prems(5) by (simp add: sleep_def Let_def)
    have 1: "k' < r" using Suc Suc.prems(1) by simp
    have 2: "\<forall>j < k'. get (requests_made ?w2 + j) url = RequestException"
      using Suc.prems(2) Suc by (auto simp: less_Suc_eq_0_disj)
    have 3: "get (requests_made ?w2 + k') url = Parsed soup" using Suc.prems(3) Suc by simp
    have 4: "int (a + 1) + int r = max_retries self" using Suc.prems(4) by simp
    from Suc.IH[OF 1 2 3 4 Suc.prems(5)] step Suc show ?thesis
      by (simp add: replicate_app_Cons_same)
  qed
qed

lemma attempts_no_raise:
  "0 \<le> request_delay self \<Longrightarrow> \<exists>res. fst (attempts self get url a r w) = Inr res"
proof (induction r arbitrary: a w)
  case 0
  then show ?case by simp
next
  case (Suc r)
  show ?case
  proof (cases "get (requests_made w) url")
    case RequestException
    show ?thesis
    proof (cases "int a = max_retries self - 1")
      case True
      with RequestException show ?thesis by (simp add: Let_def)
    next
      case False
      let ?w2 = "w\<lparr>requests_made := requests_made w + 1,
                    slept := slept w @ [request_delay self * 2]\<rparr>"
      from False RequestException Suc.prems
      have "attempts self get url a (Suc r) w = attempts self get url (a + 1) r ?w2"
        by (simp add: sleep_def Let_def)
      with Suc.IH[OF Suc.prems, of "a + 1" ?w2] show ?thesis by simp
    qed
  next
    case (Parsed soup)
    with Suc.prems show ?thesis by (simp add: sleep_def Let_def)
  qed
qed

lemma make_request_success:
  assumes "0 \<le> request_delay self" and "k < nat (max_retries self)"
    and "\<forall>j < k. get (requests_made w + j) url = RequestException"
    and "get (requests_made w + k) url = Parsed soup"
  shows "make_request self get url w =
      (Inr (Some soup),
       w\<lparr>requests_made := requests_made w + k + 1,
         slept := slept w @ replicate k (request_delay self * 2) @ [request_delay self]\<rparr>)"
proof -
  from assms(2) have "int 0 + int (nat (max_retries self)) = max_retries self" by simp
  with assms show ?thesis
    unfolding make_request_def by (intro attempts_success) simp_all
qed

lemma make_request_all_fail:
  assumes "0 \<le> request_delay self"
    and f: "\<forall>j < nat (max_retries self). get (requests_made w + j) url = RequestException"
  shows "make_request self get url w =
      (Inr None,
       w\<lparr>requests_made := requests_made w + nat (max_retries self),
         slept := slept w @ replicate (nat (max_retries self) - 1) (request_delay self * 2)\<rparr>)"
proof (cases "nat (max_retries self) = 0")
  case True
  then show ?thesis by (simp add: make_request_def)
next
  case False
  then have "int 0 + int (nat (max_retries self)) = max_retries self" by simp
  with assms show ?thesis
    unfolding make_request_def by (intro attempts_all_fail) simp_all
qed

lemma pages_halt:
  "make_request self get (build_search_url self city page) w = (Inr None, w') \<Longrightarrow>
   pages E self get city page (Suc remaining) all_listings w = (Inr all_listings, w')"
  by simp

section \<open>Properties of the scraper\<close>

lemmas url_simps = build_search_url_def spec_search_url_def amended_search_url_def number_def
  cfg0_def BASE_URL_def truthy_def fmt_def str_int_def digits.simps Let_def

lemmas extract_simps = extract_listing_data_def extract_body_def price_of_def location_of_def
  int_match_def strip_def is_space_def is_digit_def euro_def elem0_def elem_no_price_def
  elem_on_request_def elem_separators_def elem_euro_on_request_def Let_def py_get_def E0_def
  isoformat0_def day_def

lemmas fetch_simps = make_request_def scrape_city_def sleep_def cfg0_def get1_def get2_def
  w0_def page1_def listing0_def eval_nat_numeral

text \<open>
  Claim C6, as stated: the URL is base path and city, then the price segment (\<open>min-max\<close> if
  both are set, \<open>min+\<close> if only the minimum, \<open>0-max\<close> if only the maximum), then
  \<open>n-bedrooms\<close> if set, then \<open>n-m2\<close> if set, then \<open>page-n\<close> for a page after the first.
  \<^verbatim>\<open>_build_search_url\<close> tests the values for truth, not for presence: a minimum number of
  bedrooms, a minimum size or a lone minimum price of 0 is set and gives no segment.
\<close>

theorem build_search_url_zero_is_unset:
  "build_search_url (cfg0\<lparr>min_bedrooms := Some 0\<rparr>) ''rotterdam'' 1 =
     ''https://www.pararius.com/apartments/rotterdam/800-1500/50-m2'' \<and>
   spec_search_url (cfg0\<lparr>min_bedrooms := Some 0\<rparr>) ''rotterdam'' 1 =
     ''https://www.pararius.com/apartments/rotterdam/800-1500/0-bedrooms/50-m2'' \<and>
   build_search_url (cfg0\<lparr>min_size := Some 0\<rparr>) ''rotterdam'' 1 =
     ''https://www.pararius.com/apartments/rotterdam/800-1500/2-bedrooms'' \<and>
   spec_search_url (cfg0\<lparr>min_size := Some 0\<rparr>) ''rotterdam'' 1 =
     ''https://www.pararius.com/apartments/rotterdam/800-1500/2-bedrooms/0-m2'' \<and>
   build_search_url (cfg0\<lparr>price_range := [(''min'', Some 0)]\<rparr>) ''rotterdam'' 1 =
     ''https://www.pararius.com/apartments/rotterdam/2-bedrooms/50-m2'' \<and>
   spec_search_url (cfg0\<lparr>price_range := [(''min'', Some 0)]\<rparr>) ''rotterdam'' 1 =
     ''https://www.pararius.com/apartments/rotterdam/0+/2-bedrooms/50-m2''"
  by (simp add: url_simps)

text \<open>
  Claim C6, amended.  For every configuration, city and page, \<^verbatim>\<open>_build_search_url\<close> gives
  base path and city and then, in this order: the price segment, \<open>min-max\<close> if both are
  set, \<open>min+\<close> if only the minimum is set and it is not 0, \<open>0-max\<close> if only the maximum is
  set (left out when the minimum is \<^verbatim>\<open>null\<close> and the maximum is 0), and no segment
  otherwise; \<open>n-bedrooms\<close> if the minimum number of bedrooms is set and not 0; \<open>n-m2\<close> if the
  minimum size is set and not 0; \<open>page-n\<close> for a page after the first.  The configuration of
  the specification's example gives the two URLs of the example.
\<close>

theorem build_search_url_segments:
  "build_search_url self city page = amended_search_url self city page \<and>
   build_search_url cfg0 ''rotterdam'' 1 =
     ''https://www.pararius.com/apartments/rotterdam/800-1500/2-bedrooms/50-m2'' \<and>
   build_search_url cfg0 ''rotterdam'' 3 =
     ''https://www.pararius.com/apartments/rotterdam/800-1500/2-bedrooms/50-m2/page-3''"
proof (intro conjI)
  have "build_search_url self city page =
    join ''/''
      ((BASE_URL @ ''/'' @ city) #
       (case number (map_of (price_range self) ''max'') of
          Some b \<Rightarrow>
            (case map_of (price_range self) ''min'' of
               Some (Some a) \<Rightarrow> [str_int a @ ''-'' @ str_int b]
             | None \<Rightarrow> [''0-'' @ str_int b]
             | Some None \<Rightarrow> if b \<noteq> 0 then [''0-'' @ str_int b] else [])
        | None \<Rightarrow>
            (case number (map_of (price_range self) ''min'') of
               Some a \<Rightarrow> if a \<noteq> 0 then [str_int a @ ''+''] else []
             | None \<Rightarrow> [])) @
       (case min_bedrooms self of
          Some b \<Rightarrow> if b \<noteq> 0 then [str_int b @ ''-bedrooms''] else [] | None \<Rightarrow> []) @
       (case min_size self of
          Some s \<Rightarrow> if s \<noteq> 0 then [str_int s @ ''-m2''] else [] | None \<Rightarrow> []) @
       (if page > 1 then [''page-'' @ str_int page] else []))"
    unfolding build_search_url_params price_params_amended optional_segment ..
  also have "\<dots> = amended_search_url self city page"
    unfolding amended_search_url_def Let_def by simp
  finally show "build_search_url self city page = amended_search_url self city page" .
  show "build_search_url cfg0 ''rotterdam'' 1 =
     ''https://www.pararius.com/apartments/rotterdam/800-1500/2-bedrooms/50-m2''"
    by (simp add: url_simps)
  show "build_search_url cfg0 ''rotterdam'' 3 =
     ''https://www.pararius.com/apartments/rotterdam/800-1500/2-bedrooms/50-m2/page-3''"
    by (simp add: url_simps)
qed

theorem build_search_url_segments_witness:
  "build_search_url (cfg0\<lparr>price_range := [(''min'', Some 1000)]\<rparr>) ''den-haag'' 1 =
     ''https://www.pararius.com/apartments/den-haag/1000+/2-bedrooms/50-m2'' \<and>
   build_search_url (cfg0\<lparr>price_range := [(''max'', Some 2000)]\<rparr>) ''den-haag'' 2 =
     ''https://www.pararius.com/apartments/den-haag/0-2000/2-bedrooms/50-m2/page-2'' \<and>
   build_search_url (cfg0\<lparr>price_range := [(''min'', None), (''max'', Some 0)]\<rparr>) ''den-haag'' 1 =
     ''https://www.pararius.com/apartments/den-haag/2-bedrooms/50-m2'' \<and>
   build_search_url (cfg0\<lparr>price_range := [(''min'', Some 0), (''max'', Some 0)]\<rparr>) ''den-haag'' 1 =
     ''https://www.pararius.com/apartments/den-haag/0-0/2-bedrooms/50-m2'' \<and>
   build_search_url (cfg0\<lparr>price_range := [], min_bedrooms := Some 0, min_size := None\<rparr>)
       ''den-haag'' 1 =
     ''https://www.pararius.com/apartments/den-haag''"
proof -
  have a: "amended_search_url (cfg0\<lparr>price_range := [(''min'', Some 1000)]\<rparr>) ''den-haag'' 1 =
     ''https://www.pararius.com/apartments/den-haag/1000+/2-bedrooms/50-m2''"
    and b: "amended_search_url (cfg0\<lparr>price_range := [(''max'', Some 2000)]\<rparr>) ''den-haag'' 2 =
     ''https://www.pararius.com/apartments/den-haag/0-2000/2-bedrooms/50-m2/page-2''"
    and c: "amended_search_url (cfg0\<lparr>price_range := [(''min'', None), (''max'', Some 0)]\<rparr>)
       ''den-haag'' 1 =
     ''https://www.pararius.com/apartments/den-haag/2-bedrooms/50-m2''"
    and d: "amended_search_url (cfg0\<lparr>price_range := [(''min'', Some 0), (''max'', Some 0)]\<rparr>)
       ''den-haag'' 1 =
     ''https://www.pararius.com/apartments/den-haag/0-0/2-bedrooms/50-m2''"
    and e: "amended_search_url
       (cfg0\<lparr>price_range := [], min_bedrooms := Some 0, min_size := None\<rparr>) ''den-haag'' 1 =
     ''https://www.pararius.com/apartments/den-haag''"
    by (simp_all add: amended_search_url_def number_def cfg0_def BASE_URL_def str_int_def
        digits.simps Let_def)
  note t = build_search_url_segments[THEN conjunct1]
  from t[of "cfg0\<lparr>price_range := [(''min'', Some 1000)]\<rparr>" "''den-haag''" 1] a
  have 1: "build_search_url (cfg0\<lparr>price_range := [(''min'', Some 1000)]\<rparr>) ''den-haag'' 1 =
     ''https://www.pararius.com/apartments/den-haag/1000+/2-bedrooms/50-m2''"
    by (rule trans)
  from t[of "cfg0\<lparr>price_range := [(''max'', Some 2000)]\<rparr>" "''den-haag''" 2] b
  have 2: "build_search_url (cfg0\<lparr>price_range := [(''max'', Some 2000)]\<rparr>) ''den-haag'' 2 =
     ''https://www.pararius.com/apartments/den-haag/0-2000/2-bedrooms/50-m2/page-2''"
    by (rule trans)
  from t[of "cfg0\<lparr>price_range := [(''min'', None), (''max'', Some 0)]\<rparr>" "''den-haag''" 1] c
  have 3: "build_search_url (cfg0\<lparr>price_range := [(''min'', None), (''max'', Some 0)]\<rparr>)
       ''den-haag'' 1 =
     ''https://www.pararius.com/apartments/den-haag/2-bedrooms/50-m2''"
    by (rule trans)
  from t[of "cfg0\<lparr>price_range := [(''min'', Some 0), (''max'', Some 0)]\<rparr>" "''den-haag''" 1] d
  have 4: "build_search_url (cfg0\<lparr>price_range := [(''min'', Some 0), (''max'', Some 0)]\<rparr>)
       ''den-haag'' 1 =
     ''https://www.pararius.com/apartments/den-haag/0-0/2-bedrooms/50-m2''"
    by (rule trans)
  from t[of "cfg0\<lparr>price_range := [], min_bedrooms := Some 0, min_size := None\<rparr>"
      "''den-haag''" 1] e
  have 5: "build_search_url (cfg0\<lparr>price_range := [], min_bedrooms := Some 0, min_size := None\<rparr>)
       ''den-haag'' 1 =
     ''https://www.pararius.com/apartments/den-haag''"
    by (rule trans)
  from 1 2 3 4 5 show ?thesis by (intro conjI)
qed

text \<open>
  Claim C7.  For a delay that is not negative, \<^verbatim>\<open>_make_request\<close> makes at most
  \<^verbatim>\<open>max_retries\<close> requests and does not raise.  If the first \<open>k\<close> requests fail and the next
  one, still within \<^verbatim>\<open>max_retries\<close>, succeeds, it has slept \<open>k\<close> times twice the delay and
  then once the delay, and returns the page.  If \<^verbatim>\<open>max_retries\<close> requests fail, it has
  slept twice the delay after each but the last and returns \<^verbatim>\<open>None\<close>; the loop of
  \<^verbatim>\<open>scrape_city\<close> that asked for the page then ends with the listings it had.
\<close>

theorem make_request_retries:
  assumes "0 \<le> request_delay self"
  shows "requests_made (snd (make_request self get url w)) \<le> requests_made w + nat (max_retries self) \<and>
         (\<exists>res. fst (make_request self get url w) = Inr res) \<and>
         (\<forall>k soup. k < nat (max_retries self) \<and>
              (\<forall>j < k. get (requests_made w + j) url = RequestException) \<and>
              get (requests_made w + k) url = Parsed soup \<longrightarrow>
              make_request self get url w =
                (Inr (Some soup),
                 w\<lparr>requests_made := requests_made w + k + 1,
                   slept := slept w @ replicate k (request_delay self * 2) @ [request_delay self]\<rparr>)) \<and>
         ((\<forall>j < nat (max_retries self). get (requests_made w + j) url = RequestException) \<longrightarrow>
              make_request self get url w =
                (Inr None,
                 w\<lparr>requests_made := requests_made w + nat (max_retries self),
                   slept := slept w @
                     replicate (nat (max_retries self) - 1) (request_delay self * 2)\<rparr>) \<and>
              (\<forall>E city page remaining all_listings.
                 build_search_url self city page = url \<longrightarrow>
                 pages E self get city page (Suc remaining) all_listings w =
                   (Inr all_listings,
                    w\<lparr>requests_made := requests_made w + nat (max_retries self),
                      slept := slept w @
                        replicate (nat (max_retries self) - 1) (request_delay self * 2)\<rparr>)))"
proof (intro conjI allI impI)
  show "requests_made (snd (make_request self get url w)) \<le>
      requests_made w + nat (max_retries self)"
    unfolding make_request_def by (rule attempts_made)
next
  show "\<exists>res. fst (make_request self get url w) = Inr res"
    unfolding make_request_def by (rule attempts_no_raise[OF assms])
next
  fix k soup
  assume "k < nat (max_retries self) \<and>
      (\<forall>j < k. get (requests_made w + j) url = RequestException) \<and>
      get (requests_made w + k) url = Parsed soup"
  then show "make_request self get url w =
      (Inr (Some soup),
       w\<lparr>requests_made := requests_made w + k + 1,
         slept := slept w @ replicate k (request_delay self * 2) @ [request_delay self]\<rparr>)"
    using make_request_success[OF assms] by blast
next
  assume f: "\<forall>j < nat (max_retries self). get (requests_made w + j) url = RequestException"
  show "make_request self get url w =
      (Inr None,
       w\<lparr>requests_made := requests_made w + nat (max_retries self),
         slept := slept w @ replicate (nat (max_retries self) - 1) (request_delay self * 2)\<rparr>)"
    by (rule make_request_all_fail[OF assms]) (rule f)
next
  fix E city page remaining all_listings
  assume f: "\<forall>j < nat (max_retries self). get (requests_made w + j) url = RequestException"
    and u: "build_search_url self city page = url"
  have "make_request self get url w =
      (Inr None,
       w\<lparr>requests_made := requests_made w + nat (max_retries self),
         slept := slept w @ replicate (nat (max_retries self) - 1) (request_delay self * 2)\<rparr>)"
    by (rule make_request_all_fail[OF assms]) (rule f)
  with u
  show "pages E self get city page (Suc remaining) all_listings w =
      (Inr all_listings,
       w\<lparr>requests_made := requests_made w + nat (max_retries self),
         slept := slept w @ replicate (nat (max_retries self) - 1) (request_delay self * 2)\<rparr>)"
    by (intro pages_halt) simp
qed

theorem make_request_retries_witness:
  "0 \<le> request_delay cfg0 \<and>
   make_request cfg0 get2 ''https://www.pararius.com/apartments/rotterdam'' w0 =
     (Inr (Some page1), \<lparr>readings = 0, requests_made = 2, slept = [10, 5]\<rparr>) \<and>
   make_request cfg0 get1 (build_search_url cfg0 ''rotterdam'' 2)
       \<lparr>readings = 2, requests_made = 1, slept = [5]\<rparr> =
     (Inr None, \<lparr>readings = 2, requests_made = 4, slept = [5, 10, 10]\<rparr>) \<and>
   pages E0 cfg0 get1 ''rotterdam'' 2 (Suc 3) [listing0]
       \<lparr>readings = 2, requests_made = 1, slept = [5]\<rparr> =
     (Inr [listing0], \<lparr>readings = 2, requests_made = 4, slept = [5, 10, 10]\<rparr>) \<and>
   scrape_city E0 cfg0 get1 ''rotterdam'' 5 w0 =
     (Inr [listing0], \<lparr>readings = 2, requests_made = 4, slept = [5, 10, 10]\<rparr>)"
proof -
  let ?w1 = "\<lparr>readings = 2, requests_made = 1, slept = [5]\<rparr>"
  let ?u = "build_search_url cfg0 ''rotterdam'' 2"
  let ?v = "''https://www.pararius.com/apartments/rotterdam''"
  have d: "0 \<le> request_delay cfg0" by (simp add: cfg0_def)
  have r: "nat (max_retries cfg0) = 3" "request_delay cfg0 = 5" by (simp_all add: cfg0_def)
  have ok: "(1::nat) < nat (max_retries cfg0) \<and>
      (\<forall>j < 1. get2 (requests_made w0 + j) ?v = RequestException) \<and>
      get2 (requests_made w0 + 1) ?v = Parsed page1"
    by (simp add: r get2_def w0_def)
  have fail: "\<forall>j < nat (max_retries cfg0). get1 (requests_made ?w1 + j) ?u = RequestException"
    by (simp add: get1_def)
  let ?W = "?w1\<lparr>requests_made := requests_made ?w1 + nat (max_retries cfg0),
               slept := slept ?w1 @
                 replicate (nat (max_retries cfg0) - 1) (request_delay cfg0 * 2)\<rparr>"
  let ?V = "w0\<lparr>requests_made := requests_made w0 + 1 + 1,
               slept := slept w0 @ replicate 1 (request_delay cfg0 * 2) @ [request_delay cfg0]\<rparr>"
  have w: "?V = \<lparr>readings = 0, requests_made = 2, slept = [10, 5]\<rparr>"
    by (simp add: w0_def r)
  have w': "?W = \<lparr>readings = 2, requests_made = 4, slept = [5, 10, 10]\<rparr>"
    by (simp add: r eval_nat_numeral)
  from make_request_retries[OF d, of get2 ?v w0]
  have "\<forall>k soup. k < nat (max_retries cfg0) \<and>
            (\<forall>j < k. get2 (requests_made w0 + j) ?v = RequestException) \<and>
            get2 (requests_made w0 + k) ?v = Parsed soup \<longrightarrow>
            make_request cfg0 get2 ?v w0 =
              (Inr (Some soup),
               w0\<lparr>requests_made := requests_made w0 + k + 1,
                 slept := slept w0 @ replicate k (request_delay cfg0 * 2) @ [request_delay cfg0]\<rparr>)"
    by (elim conjE)
  then have "(1::nat) < nat (max_retries cfg0) \<and>
            (\<forall>j < 1. get2 (requests_made w0 + j) ?v = RequestException) \<and>
            get2 (requests_made w0 + 1) ?v = Parsed page1 \<longrightarrow>
            make_request cfg0 get2 ?v w0 = (Inr (Some page1), ?V)"
    by (elim allE[where x = 1] allE[where x = page1])
  from this ok have 1: "make_request cfg0 get2 ?v w0 =
     (Inr (Some page1), \<lparr>readings = 0, requests_made = 2, slept = [10, 5]\<rparr>)"
    unfolding w by (rule mp)
  from make_request_retries[OF d, of get1 ?u ?w1]
  have "(\<forall>j < nat (max_retries cfg0). get1 (requests_made ?w1 + j) ?u = RequestException) \<longrightarrow>
          make_request cfg0 get1 ?u ?w1 = (Inr None, ?W) \<and>
          (\<forall>E city page remaining all_listings.
             build_search_url cfg0 city page = ?u \<longrightarrow>
             pages E cfg0 get1 city page (Suc remaining) all_listings ?w1 =
               (Inr all_listings, ?W))"
    by (elim conjE)
  from this fail have G: "make_request cfg0 get1 ?u ?w1 = (Inr None, ?W) \<and>
          (\<forall>E city page remaining all_listings.
             build_search_url cfg0 city page = ?u \<longrightarrow>
             pages E cfg0 get1 city page (Suc remaining) all_listings ?w1 =
               (Inr all_listings, ?W))"
    by (rule mp)
  from G have 2: "make_request cfg0 get1 ?u ?w1 =
     (Inr None, \<lparr>readings = 2, requests_made = 4, slept = [5, 10, 10]\<rparr>)"
    unfolding w' by (rule conjunct1)
  from G have "\<forall>E city page remaining all_listings.
             build_search_url cfg0 city page = ?u \<longrightarrow>
             pages E cfg0 get1 city page (Suc remaining) all_listings ?w1 =
               (Inr all_listings, ?W)"
    by (rule conjunct2)
  then have "build_search_url cfg0 ''rotterdam'' 2 = ?u \<longrightarrow>
             pages E0 cfg0 get1 ''rotterdam'' 2 (Suc 3) [listing0] ?w1 = (Inr [listing0], ?W)"
    by (elim allE[where x = E0] allE[where x = "''rotterdam''"] allE[where x = 2]
          allE[where x = 3] allE[where x = "[listing0]"])
  then have 3: "pages E0 cfg0 get1 ''rotterdam'' 2 (Suc 3) [listing0] ?w1 =
     (Inr [listing0], \<lparr>readings = 2, requests_made = 4, slept = [5, 10, 10]\<rparr>)"
    unfolding w' by (rule mp) (rule refl)
  have 4: "scrape_city E0 cfg0 get1 ''rotterdam'' 5 w0 =
     (Inr [listing0], \<lparr>readings = 2, requests_made = 4, slept = [5, 10, 10]\<rparr>)"
    by (simp add: fetch_simps extract_simps)
  from d 1 2 3 4 show ?thesis by (intro conjI)
qed






lemma has_price_token_Nil [simp]: "\<not> has_price_token []"
  by (simp add: has_price_token_def)









end
